theory Spec2Isabelle
  imports Complex_Main "HOL-Library.Log_Nat"
begin

section \<open>Page behaviours of \<^verbatim>\<open>app/static/js/ai-features.js\<close>\<close>

text \<open>
  The script binds its handlers once, on \<^verbatim>\<open>DOMContentLoaded\<close>. This theory embeds the
  handlers that read and write page state: the mark-read click handler, the unread-count
  refresh, the checklist change handler, the checklist restoration loop and
  \<^verbatim>\<open>updateChecklistProgress\<close>. An \<^verbatim>\<open>async\<close> function is split at its
  \<^verbatim>\<open>await\<close>: the part that issues the request, and the part that resumes with the
  outcome of the request on the page as it is at that moment.
\<close>

subsection \<open>Numbers\<close>

text \<open>
  A JavaScript number is an IEEE 754 double. The script divides one element count by
  another and multiplies by 100, so only \<open>NaN\<close>, \<open>+Infinity\<close> and the finite values
  from zero upwards arise; a finite value is kept as the rational it denotes.
  \<open>to_double\<close> rounds a rational to the nearest double, ties to the even significand:
  the significand has 53 bits, the least exponent of the unit in the last place is
  \<open>-1074\<close>, and a result of \<open>2^1024\<close> or more is \<open>+Infinity\<close>.
\<close>

datatype number = NaN | PosInf | Fin rat

definition floor_log2 :: "rat \<Rightarrow> int" where
  "floor_log2 q = (if 1 \<le> q then bitlen \<lfloor>q\<rfloor> - 1 else - bitlen (\<lceil>1 / q\<rceil> - 1))"

definition round_half_even :: "rat \<Rightarrow> int" where
  "round_half_even x =
     (let f = \<lfloor>x\<rfloor>; d = x - of_int f
      in if d < 1 / 2 then f else if 1 / 2 < d then f + 1 else if even f then f else f + 1)"

definition to_double :: "rat \<Rightarrow> number" where
  "to_double q =
     (if q \<le> 0 then Fin 0
      else let e = max (floor_log2 q - 52) (- 1074);
               r = of_int (round_half_even (q / 2 powi e)) * 2 powi e
           in if 2 ^ 1024 \<le> r then PosInf else Fin r)"

text \<open>An element count (\<^verbatim>\<open>.length\<close>) is an integer below \<open>2^32\<close>, which a double holds exactly.\<close>

definition num :: "nat \<Rightarrow> number" where
  "num n = Fin (of_nat n)"

fun js_div :: "number \<Rightarrow> number \<Rightarrow> number" where
  "js_div (Fin a) (Fin b) = (if b = 0 then (if a = 0 then NaN else PosInf) else to_double (a / b))"
| "js_div (Fin a) PosInf = Fin 0"
| "js_div PosInf (Fin b) = PosInf"
| "js_div _ _ = NaN"

fun js_mul :: "number \<Rightarrow> number \<Rightarrow> number" where
  "js_mul (Fin a) (Fin b) = to_double (a * b)"
| "js_mul PosInf (Fin b) = (if b = 0 then NaN else PosInf)"
| "js_mul (Fin a) PosInf = (if a = 0 then NaN else PosInf)"
| "js_mul PosInf PosInf = PosInf"
| "js_mul _ _ = NaN"

text \<open>\<^verbatim>\<open>===\<close>, \<^verbatim>\<open>>=\<close> and \<^verbatim>\<open><\<close> on numbers: every comparison with \<open>NaN\<close> is false.\<close>

fun js_eq :: "number \<Rightarrow> number \<Rightarrow> bool" where
  "js_eq (Fin a) (Fin b) = (a = b)"
| "js_eq PosInf PosInf = True"
| "js_eq _ _ = False"

fun js_ge :: "number \<Rightarrow> number \<Rightarrow> bool" where
  "js_ge (Fin a) (Fin b) = (b \<le> a)"
| "js_ge PosInf (Fin b) = True"
| "js_ge PosInf PosInf = True"
| "js_ge _ _ = False"

fun js_lt :: "number \<Rightarrow> number \<Rightarrow> bool" where
  "js_lt (Fin a) (Fin b) = (a < b)"
| "js_lt (Fin a) PosInf = True"
| "js_lt _ _ = False"

text \<open>
  \<^verbatim>\<open>Math.round\<close>: the nearest integer, the one towards \<open>+\<infinity>\<close> of two equally near.
\<close>

fun Math_round :: "number \<Rightarrow> number" where
  "Math_round (Fin x) = Fin (of_int \<lfloor>x + 1 / 2\<rfloor>)"
| "Math_round PosInf = PosInf"
| "Math_round NaN = NaN"

subsection \<open>Elements\<close>

text \<open>
  A string the script builds by the template literal \<^verbatim>\<open>`${x}%`\<close> is kept as
  \<open>Percent x\<close>: the decimal rendering of the number \<open>x\<close> followed by a percent sign.
  The rendering of a number determines the number, so two such strings are equal exactly
  when the numbers are.
\<close>

datatype dom_string = Plain string | Percent number

record element =
  classList :: "string list"
  textContent :: dom_string
  style_width :: dom_string

text \<open>\<^verbatim>\<open>classList.add(c)\<close> and \<^verbatim>\<open>classList.remove(c1, c2, ...)\<close> on a token list.\<close>

definition classList_add :: "string \<Rightarrow> string list \<Rightarrow> string list" where
  "classList_add c cs = (if c \<in> set cs then cs else cs @ [c])"

definition classList_remove :: "string list \<Rightarrow> string list \<Rightarrow> string list" where
  "classList_remove rs cs = filter (\<lambda>c. c \<notin> set rs) cs"

text \<open>
  \<^verbatim>\<open>el.style.width = `${x}%`\<close>: the style declaration takes a value only if it parses
  as a width, a percentage that is not negative; \<^verbatim>\<open>NaN%\<close> and \<^verbatim>\<open>Infinity%\<close> do
  not, and the assignment then leaves the declaration as it was.
\<close>

definition set_style_width_percent :: "number \<Rightarrow> element \<Rightarrow> element" where
  "set_style_width_percent x el =
     (case x of
        Fin q \<Rightarrow> if 0 \<le> q then el\<lparr>style_width := Percent x\<rparr> else el
      | _ \<Rightarrow> el)"

text \<open>The decimal rendering of an element count.\<close>

fun show_nat :: "nat \<Rightarrow> string" where
  "show_nat n =
     (if n < 10 then [''0123456789'' ! n]
      else show_nat (n div 10) @ [''0123456789'' ! (n mod 10)])"

declare show_nat.simps [simp del]

text \<open>
  \<^verbatim>\<open>`${v}`\<close> for a \<^verbatim>\<open>dataset\<close> entry: an attribute that is absent reads as
  \<^verbatim>\<open>undefined\<close>.
\<close>

definition tmpl :: "string option \<Rightarrow> string" where
  "tmpl v = (case v of None \<Rightarrow> ''undefined'' | Some s \<Rightarrow> s)"

subsection \<open>The page\<close>

text \<open>
  The exceptions that arise. \<open>Unmodelled\<close> is not one of them: it marks a lookup whose
  selector is not read to its end here (see \<open>querySelector_card\<close>). The properties below
  either rule it out by a hypothesis or are about storage and checkboxes, which the
  progress recomputation does not write, whatever its selector finds.
\<close>

datatype js_error = TypeError | SyntaxError | NetworkError | Unmodelled

text \<open>
  The outcome of \<^verbatim>\<open>fetch\<close>: the promise rejects, or it fulfils with a response.
  \<^verbatim>\<open>response.ok\<close> is true for a status from 200 to 299. Of the body, the script reads
  \<^verbatim>\<open>(await response.json()).news.length\<close>: \<open>NotJson\<close> is a body that
  \<^verbatim>\<open>response.json()\<close> rejects, \<open>NoNews\<close> a parsed body without a \<^verbatim>\<open>news\<close>
  entry (reading \<^verbatim>\<open>.length\<close> of it raises), \<open>News ns\<close> a body whose
  \<^verbatim>\<open>news\<close> is the array \<open>ns\<close>.
\<close>

datatype body = NotJson | NoNews | News "string list"

record response =
  status :: nat
  body :: body

definition ok :: "response \<Rightarrow> bool" where
  "ok r \<longleftrightarrow> 200 \<le> status r \<and> status r \<le> 299"

datatype fetch_result = Rejected js_error | Fulfilled response

record request =
  http_method :: string
  url :: string

text \<open>
  A \<^verbatim>\<open>.mark-news-read\<close> button carries \<^verbatim>\<open>data-news-id\<close> and names the
  \<^verbatim>\<open>.news-item\<close> element that encloses it, if one does. A checklist card carries
  \<^verbatim>\<open>data-checklist-id\<close>, its \<^verbatim>\<open>.checklist-item\<close> checkboxes and its
  \<^verbatim>\<open>.progress-bar\<close> elements, both in document order.
\<close>

record mark_button =
  newsId :: "string option"
  news_item :: "nat option"

record checklist_item =
  itemId :: "string option"
  data_required :: "string option"
  checked :: bool

record card =
  checklistId :: "string option"
  items :: "checklist_item list"
  progress_bars :: "element list"

text \<open>
  The page: the mark-read buttons and the news items in the document (by node), the
  \<^verbatim>\<open>#news-badge\<close> element if there is one, the checklist cards in document order,
  \<^verbatim>\<open>localStorage\<close>, what \<^verbatim>\<open>console.error\<close> has logged and the requests
  \<^verbatim>\<open>fetch\<close> has issued.
\<close>

record page =
  buttons :: "nat \<rightharpoonup> mark_button"
  news_items :: "nat \<rightharpoonup> element"
  news_badge :: "element option"
  cards :: "card list"
  localStorage :: "string \<rightharpoonup> string"
  console :: "(string \<times> js_error) list"
  requests :: "request list"

definition console_error :: "string \<Rightarrow> js_error \<Rightarrow> page \<Rightarrow> page" where
  "console_error msg e p = p\<lparr>console := console p @ [(msg, e)]\<rparr>"

definition fetch :: "request \<Rightarrow> page \<Rightarrow> page" where
  "fetch r p = p\<lparr>requests := requests p @ [r]\<rparr>"

subsection \<open>Unread news count\<close>

text \<open>
  \<^verbatim>\<open>
  async function updateUnreadCount() {
      try {
          const response = await fetch('/api/news?unread_only=true');
          if (response.ok) {
              const data = await response.json();
              const badge = document.getElementById('news-badge');
              if (badge) {
                  if (data.news.length > 0) {
                      badge.textContent = data.news.length;
                      badge.classList.remove('d-none');
                  } else {
                      badge.classList.add('d-none');
                  }
              }
          }
      } catch (error) {
          console.error('Error updating news count:', error);
      }
  }
  \<close>
\<close>

definition updateUnreadCount :: "page \<Rightarrow> page" where
  "updateUnreadCount p =
     fetch \<lparr>http_method = ''GET'', url = ''/api/news?unread_only=true''\<rparr> p"

definition show_unread :: "body \<Rightarrow> element \<Rightarrow> page \<Rightarrow> page" where
  "show_unread data badge p =
     (case data of
        News ns \<Rightarrow>
          if 0 < length ns
          then p\<lparr>news_badge := Some (badge
                 \<lparr>classList := classList_remove [''d-none''] (classList badge),
                  textContent := Plain (show_nat (length ns))\<rparr>)\<rparr>
          else p\<lparr>news_badge := Some (badge
                 \<lparr>classList := classList_add ''d-none'' (classList badge)\<rparr>)\<rparr>
      | _ \<Rightarrow> console_error ''Error updating news count:'' TypeError p)"

definition updateUnreadCount_resume :: "fetch_result \<Rightarrow> page \<Rightarrow> page" where
  "updateUnreadCount_resume res p =
     (case res of
        Rejected e \<Rightarrow> console_error ''Error updating news count:'' e p
      | Fulfilled r \<Rightarrow>
          if ok r then
            (if body r = NotJson
             then console_error ''Error updating news count:'' SyntaxError p
             else (case news_badge p of
                     None \<Rightarrow> p
                   | Some badge \<Rightarrow> show_unread (body r) badge p))
          else p)"

subsection \<open>Mark news as read\<close>

text \<open>
  \<^verbatim>\<open>
  btn.addEventListener('click', async function() {
      const newsId = this.dataset.newsId;
      try {
          const response = await fetch(`/news/${newsId}/mark-read`, {
              method: 'POST',
              headers: { 'Content-Type': 'application/json' }
          });
          if (response.ok) {
              this.closest('.news-item').classList.add('opacity-50');
              this.remove();
              updateUnreadCount();
          }
      } catch (error) {
          console.error('Error marking news as read:', error);
      }
  });
  \<close>
  \<^verbatim>\<open>this\<close> is the button. \<^verbatim>\<open>this.closest('.news-item')\<close> is \<^verbatim>\<open>null\<close> for a
  button that is no longer in the document or has no such ancestor, and the property read
  on \<^verbatim>\<open>null\<close> raises a \<^verbatim>\<open>TypeError\<close> inside the \<^verbatim>\<open>try\<close>.
\<close>

definition markNewsRead_click :: "nat \<Rightarrow> page \<Rightarrow> page" where
  "markNewsRead_click b p =
     (case buttons p b of
        None \<Rightarrow> p
      | Some btn \<Rightarrow>
          fetch \<lparr>http_method = ''POST'', url = ''/news/'' @ tmpl (newsId btn) @ ''/mark-read''\<rparr> p)"

definition closest_news_item :: "page \<Rightarrow> nat \<Rightarrow> (nat \<times> element) option" where
  "closest_news_item p b =
     (case buttons p b of
        None \<Rightarrow> None
      | Some btn \<Rightarrow>
          (case news_item btn of
             None \<Rightarrow> None
           | Some i \<Rightarrow> (case news_items p i of None \<Rightarrow> None | Some el \<Rightarrow> Some (i, el))))"

definition markNewsRead_resume :: "nat \<Rightarrow> fetch_result \<Rightarrow> page \<Rightarrow> page" where
  "markNewsRead_resume b res p =
     (case res of
        Rejected e \<Rightarrow> console_error ''Error marking news as read:'' e p
      | Fulfilled r \<Rightarrow>
          if ok r then
            (case closest_news_item p b of
               None \<Rightarrow> console_error ''Error marking news as read:'' TypeError p
             | Some (i, el) \<Rightarrow>
                 updateUnreadCount
                   (p\<lparr>news_items := (news_items p)
                         (i \<mapsto> el\<lparr>classList := classList_add ''opacity-50'' (classList el)\<rparr>),
                      buttons := (buttons p)(b := None)\<rparr>))
          else p)"

subsection \<open>Checklist progress\<close>

text \<open>
  A handler that raises keeps the writes it made before: a completion carries the page
  in both cases.
\<close>

datatype completion = Normal page | Throw js_error page

fun page_of :: "completion \<Rightarrow> page" where
  "page_of (Normal p) = p"
| "page_of (Throw e p) = p"

text \<open>
  \<^verbatim>\<open>document.querySelector(`.checklist-card[data-checklist-id="${checklistId}"]`)\<close>
  builds the selector by interpolation, so the browser reads the identifier as the inside
  of a quoted CSS string, with \<^verbatim>\<open>"]\<close> after it. Strings are kept as UTF-8 bytes.
  The selector text is first normalised: a carriage return, a form feed and the pair CR LF
  become a line feed, and NUL becomes U+FFFD.
\<close>

definition byte :: "nat \<Rightarrow> char" where
  "byte n = Char (odd n) (odd (n div 2)) (odd (n div 4)) (odd (n div 8))
              (odd (n div 16)) (odd (n div 32)) (odd (n div 64)) (odd (n div 128))"

definition utf8 :: "nat \<Rightarrow> string" where
  "utf8 n =
     (if n < 0x80 then [byte n]
      else if n < 0x800 then [byte (0xC0 + n div 0x40), byte (0x80 + n mod 0x40)]
      else if n < 0x10000 then
        [byte (0xE0 + n div 0x1000), byte (0x80 + n div 0x40 mod 0x40),
         byte (0x80 + n mod 0x40)]
      else
        [byte (0xF0 + n div 0x40000), byte (0x80 + n div 0x1000 mod 0x40),
         byte (0x80 + n div 0x40 mod 0x40), byte (0x80 + n mod 0x40)])"

definition preprocess_one :: "char \<Rightarrow> string" where
  "preprocess_one c =
     (if c = CHR 0x0D \<or> c = CHR 0x0C then [CHR 0x0A]
      else if c = CHR 0x00 then utf8 0xFFFD
      else [c])"

fun preprocess :: "string \<Rightarrow> string" where
  "preprocess [] = []"
| "preprocess [c] = preprocess_one c"
| "preprocess (c # d # ds) =
     (if c = CHR 0x0D \<and> d = CHR 0x0A then CHR 0x0A # preprocess ds
      else preprocess_one c @ preprocess (d # ds))"

text \<open>
  The string token. A quote ends the string and a line feed makes it a bad string. A
  backslash starts an escape: one to six hexadecimal digits, and one white-space character
  after them, stand for the code point of that number (for U+FFFD when the number is
  zero, a surrogate or beyond U+10FFFF); a backslash before a line feed stands for
  nothing; a backslash before any other character stands for that character. The scan
  keeps the value read so far and, once the string is closed, the text after it.
\<close>

definition hex_value :: "char \<Rightarrow> nat option" where
  "hex_value c =
     (let n = of_char c :: nat
      in if 48 \<le> n \<and> n \<le> 57 then Some (n - 48)
         else if 65 \<le> n \<and> n \<le> 70 then Some (n - 55)
         else if 97 \<le> n \<and> n \<le> 102 then Some (n - 87)
         else None)"

definition escaped_code_point :: "nat \<Rightarrow> string" where
  "escaped_code_point n =
     (if n = 0 \<or> (0xD800 \<le> n \<and> n \<le> 0xDFFF) \<or> 0x10FFFF < n then utf8 0xFFFD else utf8 n)"

datatype scan =
  InString string | Escape string | Hex string nat nat | Closed string string | BadString

definition in_string :: "string \<Rightarrow> char \<Rightarrow> scan" where
  "in_string acc c =
     (if c = CHR 0x22 then Closed acc []
      else if c = CHR 0x0A then BadString
      else if c = CHR 0x5C then Escape acc
      else InString (acc @ [c]))"

fun scan_step :: "scan \<Rightarrow> char \<Rightarrow> scan" where
  "scan_step (InString acc) c = in_string acc c"
| "scan_step (Escape acc) c =
     (if c = CHR 0x0A then InString acc
      else (case hex_value c of
              Some d \<Rightarrow> Hex acc 1 d
            | None \<Rightarrow> InString (acc @ [c])))"
| "scan_step (Hex acc k v) c =
     (case hex_value c of
        Some d \<Rightarrow>
          if k < 6 then Hex acc (Suc k) (16 * v + d)
          else in_string (acc @ escaped_code_point v) c
      | None \<Rightarrow>
          if c = CHR 0x20 \<or> c = CHR 0x09 \<or> c = CHR 0x0A
          then InString (acc @ escaped_code_point v)
          else in_string (acc @ escaped_code_point v) c)"
| "scan_step (Closed acc rest) c = Closed acc (rest @ [c])"
| "scan_step BadString c = BadString"

definition selector_value :: "string \<Rightarrow> scan" where
  "selector_value cid =
     foldl scan_step (InString []) (preprocess (cid @ [CHR 0x22, CHR '']'']))"

text \<open>
  The outcome of the lookup.
  \<^item> The string is bad: the selector is invalid and \<^verbatim>\<open>querySelector\<close> raises a
    \<^verbatim>\<open>SyntaxError\<close>.
  \<^item> The string closes at the quote of the template, with \<^verbatim>\<open>]\<close> after it: the
    selector is the attribute selector for the value read. The result is the first card,
    in document order, whose attribute is that value; without one it is \<^verbatim>\<open>null\<close>,
    and \<^verbatim>\<open>card.querySelectorAll\<close> raises a \<^verbatim>\<open>TypeError\<close>.
  \<^item> The string closes at a quote of the identifier, and the text after it cannot go on
    with an attribute selector (which takes white space, a comment, the flag
    \<^verbatim>\<open>i\<close> or \<^verbatim>\<open>s\<close>, written out or escaped, or \<^verbatim>\<open>]\<close> there): a
    \<^verbatim>\<open>SyntaxError\<close> again.
  \<^item> Otherwise the identifier goes on with selector text of its own, or the string runs
    over the end of the template. Such a selector is not read further, and the outcome is
    \<open>Unmodelled\<close>.
\<close>

fun first_index :: "('a \<Rightarrow> bool) \<Rightarrow> 'a list \<Rightarrow> nat option" where
  "first_index P [] = None"
| "first_index P (x # xs) = (if P x then Some 0 else map_option Suc (first_index P xs))"

definition continues_selector :: "string \<Rightarrow> bool" where
  "continues_selector rest =
     (case rest of
        [] \<Rightarrow> True
      | c # cs \<Rightarrow>
          c \<in> set [CHR 0x20, CHR 0x09, CHR 0x0A, CHR '']'', CHR ''/'', CHR ''i'', CHR ''I'',
                     CHR ''s'', CHR ''S'', CHR 0x5C])"

definition querySelector_card :: "string \<Rightarrow> page \<Rightarrow> js_error + nat" where
  "querySelector_card cid p =
     (case selector_value cid of
        BadString \<Rightarrow> Inl SyntaxError
      | Closed v rest \<Rightarrow>
          if rest = '']'' then
            (case first_index (\<lambda>c. checklistId c = Some v) (cards p) of
               None \<Rightarrow> Inl TypeError
             | Some i \<Rightarrow> Inr i)
          else if continues_selector rest then Inl Unmodelled
          else Inl SyntaxError
      | _ \<Rightarrow> Inl Unmodelled)"

text \<open>
  \<^verbatim>\<open>
  function updateChecklistProgress(checklistId) {
      const card = document.querySelector(`.checklist-card[data-checklist-id="${checklistId}"]`);
      const items = card.querySelectorAll('.checklist-item');
      const requiredItems = card.querySelectorAll('.checklist-item[data-required="true"]');

      const totalItems = items.length;
      const checkedItems = Array.from(items).filter(item => item.checked).length;
      const checkedRequired = Array.from(requiredItems).filter(item => item.checked).length;
      const totalRequired = requiredItems.length;

      const progress = (checkedItems / totalItems) * 100;
      const requiredProgress = totalRequired > 0 ? (checkedRequired / totalRequired) * 100 : 100;

      const progressBar = card.querySelector('.progress-bar');
      if (progressBar) {
          progressBar.style.width = `${progress}%`;
          progressBar.textContent = `${Math.round(progress)}%`;

          // Color based on required items completion
          if (requiredProgress === 100) {
              progressBar.classList.remove('bg-warning', 'bg-danger');
              progressBar.classList.add('bg-success');
          } else if (requiredProgress >= 50) {
              progressBar.classList.remove('bg-success', 'bg-danger');
              progressBar.classList.add('bg-warning');
          } else {
              progressBar.classList.remove('bg-success', 'bg-warning');
              progressBar.classList.add('bg-danger');
          }
      }
  }
  \<close>
  The constants of the function body are functions of the card.
\<close>

definition requiredItems :: "card \<Rightarrow> checklist_item list" where
  "requiredItems c = filter (\<lambda>item. data_required item = Some ''true'') (items c)"

definition totalItems :: "card \<Rightarrow> nat" where
  "totalItems c = length (items c)"

definition checkedItems :: "card \<Rightarrow> nat" where
  "checkedItems c = length (filter checked (items c))"

definition checkedRequired :: "card \<Rightarrow> nat" where
  "checkedRequired c = length (filter checked (requiredItems c))"

definition totalRequired :: "card \<Rightarrow> nat" where
  "totalRequired c = length (requiredItems c)"

definition progress :: "card \<Rightarrow> number" where
  "progress c = js_mul (js_div (num (checkedItems c)) (num (totalItems c))) (Fin 100)"

definition requiredProgress :: "card \<Rightarrow> number" where
  "requiredProgress c =
     (if 0 < totalRequired c
      then js_mul (js_div (num (checkedRequired c)) (num (totalRequired c))) (Fin 100)
      else Fin 100)"

definition paint :: "number \<Rightarrow> number \<Rightarrow> element \<Rightarrow> element" where
  "paint prog req progressBar =
     (let bar = (set_style_width_percent prog progressBar)
                  \<lparr>textContent := Percent (Math_round prog)\<rparr>
      in if js_eq req (Fin 100) then
           bar\<lparr>classList := classList_add ''bg-success''
                  (classList_remove [''bg-warning'', ''bg-danger''] (classList bar))\<rparr>
         else if js_ge req (Fin 50) then
           bar\<lparr>classList := classList_add ''bg-warning''
                  (classList_remove [''bg-success'', ''bg-danger''] (classList bar))\<rparr>
         else
           bar\<lparr>classList := classList_add ''bg-danger''
                  (classList_remove [''bg-success'', ''bg-warning''] (classList bar))\<rparr>)"

text \<open>\<^verbatim>\<open>card.querySelector('.progress-bar')\<close>: the first such element of the card, or \<^verbatim>\<open>null\<close>.\<close>

definition querySelector_progress_bar :: "card \<Rightarrow> element option" where
  "querySelector_progress_bar c = (case progress_bars c of [] \<Rightarrow> None | bar # rest \<Rightarrow> Some bar)"

definition updateChecklistProgress :: "string option \<Rightarrow> page \<Rightarrow> completion" where
  "updateChecklistProgress cid p =
     (case querySelector_card (tmpl cid) p of
        Inl e \<Rightarrow> Throw e p
      | Inr i \<Rightarrow>
          (let c = cards p ! i
           in case querySelector_progress_bar c of
                None \<Rightarrow> Normal p
              | Some progressBar \<Rightarrow>
                  Normal (p\<lparr>cards := (cards p)
                    [i := c\<lparr>progress_bars :=
                              paint (progress c) (requiredProgress c) progressBar
                                # tl (progress_bars c)\<rparr>]\<rparr>)))"

text \<open>
  The colour tier of a progress bar: the tier classes its class list holds.
\<close>

datatype tier = Success | Warning | Danger

fun tier_class :: "tier \<Rightarrow> string" where
  "tier_class Success = ''bg-success''"
| "tier_class Warning = ''bg-warning''"
| "tier_class Danger = ''bg-danger''"

definition tiers_shown :: "element \<Rightarrow> tier list" where
  "tiers_shown bar = filter (\<lambda>t. tier_class t \<in> set (classList bar)) [Success, Warning, Danger]"

subsection \<open>Checklist persistence\<close>

text \<open>
  \<^verbatim>\<open>
  item.addEventListener('change', function() {
      const checklistId = this.closest('.checklist-card').dataset.checklistId;
      const itemId = this.dataset.itemId;
      const isChecked = this.checked;
      const key = `checklist_${checklistId}_${itemId}`;
      localStorage.setItem(key, isChecked);
      updateChecklistProgress(checklistId);
  });
  \<close>
  The checkbox is item \<open>ii\<close> of card \<open>ci\<close>. The browser has set
  \<^verbatim>\<open>checked\<close> before it dispatches \<^verbatim>\<open>change\<close>; \<open>toggle\<close> is both steps.
  The storage is taken to be available and not full, so that \<^verbatim>\<open>setItem\<close> and
  \<^verbatim>\<open>getItem\<close> return.
\<close>

definition storage_key :: "string option \<Rightarrow> string option \<Rightarrow> string" where
  "storage_key cid iid = ''checklist_'' @ tmpl cid @ ''_'' @ tmpl iid"

definition bool_string :: "bool \<Rightarrow> string" where
  "bool_string b = (if b then ''true'' else ''false'')"

definition checklist_item_change :: "nat \<Rightarrow> nat \<Rightarrow> page \<Rightarrow> completion" where
  "checklist_item_change ci ii p =
     (if ci < length (cards p) \<and> ii < length (items (cards p ! ci)) then
        (let c = cards p ! ci;
             item = items c ! ii;
             cid = checklistId c;
             isChecked = checked item;
             key = storage_key cid (itemId item)
         in updateChecklistProgress cid
              (p\<lparr>localStorage := (localStorage p)(key \<mapsto> bool_string isChecked)\<rparr>))
      else Normal p)"

definition set_checked :: "nat \<Rightarrow> nat \<Rightarrow> bool \<Rightarrow> page \<Rightarrow> page" where
  "set_checked ci ii v p =
     (if ci < length (cards p) \<and> ii < length (items (cards p ! ci)) then
        (let c = cards p ! ci
         in p\<lparr>cards := (cards p)
               [ci := c\<lparr>items := (items c)[ii := (items c ! ii)\<lparr>checked := v\<rparr>]\<rparr>]\<rparr>)
      else p)"

definition toggle :: "nat \<Rightarrow> nat \<Rightarrow> bool \<Rightarrow> page \<Rightarrow> completion" where
  "toggle ci ii v p = checklist_item_change ci ii (set_checked ci ii v p)"

text \<open>
  \<^verbatim>\<open>
  document.querySelectorAll('.checklist-card').forEach(card => {
      const checklistId = card.dataset.checklistId;
      card.querySelectorAll('.checklist-item').forEach(item => {
          const itemId = item.dataset.itemId;
          const key = `checklist_${checklistId}_${itemId}`;
          const savedState = localStorage.getItem(key);
          if (savedState !== null) {
              item.checked = savedState === 'true';
          }
      });
      updateChecklistProgress(checklistId);
  });
  \<close>
  An exception of \<^verbatim>\<open>updateChecklistProgress\<close> ends the loop: the cards after it are
  not visited.
\<close>

definition restore_item :: "string option \<Rightarrow> (string \<rightharpoonup> string) \<Rightarrow> checklist_item \<Rightarrow> checklist_item" where
  "restore_item cid storage item =
     (case storage (storage_key cid (itemId item)) of
        None \<Rightarrow> item
      | Some savedState \<Rightarrow> item\<lparr>checked := (savedState = ''true'')\<rparr>)"

definition restore_card :: "nat \<Rightarrow> page \<Rightarrow> completion" where
  "restore_card j p =
     (let c = cards p ! j;
          cid = checklistId c
      in updateChecklistProgress cid
           (p\<lparr>cards := (cards p)
               [j := c\<lparr>items := map (restore_item cid (localStorage p)) (items c)\<rparr>]\<rparr>))"

fun restore_cards :: "nat list \<Rightarrow> page \<Rightarrow> completion" where
  "restore_cards [] p = Normal p"
| "restore_cards (j # js) p =
     (case restore_card j p of
        Normal p' \<Rightarrow> restore_cards js p'
      | Throw e p' \<Rightarrow> Throw e p')"

definition restoreChecklists :: "page \<Rightarrow> completion" where
  "restoreChecklists p = restore_cards [0..<length (cards p)] p"

subsection \<open>Notions of the specification\<close>

text \<open>
  A network failure of a request: the promise of \<^verbatim>\<open>fetch\<close> rejects, or the response
  has a status outside 200 to 299.
\<close>

definition failure :: "fetch_result \<Rightarrow> bool" where
  "failure res = (case res of Rejected e \<Rightarrow> True | Fulfilled r \<Rightarrow> \<not> ok r)"

text \<open>
  A card resolves on a page when the selector built from its identifier finds a card
  there, so that the progress recomputation for it returns.
\<close>

definition resolves :: "page \<Rightarrow> card \<Rightarrow> bool" where
  "resolves p c =
     (case querySelector_card (tmpl (checklistId c)) p of Inl e \<Rightarrow> False | Inr i \<Rightarrow> True)"

text \<open>
  A plain identifier has no quote, backslash, line break or NUL in it: the selector reads
  it as it is.
\<close>

definition plain_identifier :: "string \<Rightarrow> bool" where
  "plain_identifier s \<longleftrightarrow>
     set s \<inter> {CHR 0x22, CHR 0x5C, CHR 0x0A, CHR 0x0C, CHR 0x0D, CHR 0x00} = {}"

text \<open>
  The exactly rounded percentage of \<open>c\<close> out of \<open>t\<close>, halves upwards, and whether the
  percentage lies exactly halfway between two whole numbers.
\<close>

definition exact_rounded_percentage :: "nat \<Rightarrow> nat \<Rightarrow> int" where
  "exact_rounded_percentage c t = \<lfloor>(of_nat c :: rat) / of_nat t * 100 + 1 / 2\<rfloor>"

definition percentage_tie :: "nat \<Rightarrow> nat \<Rightarrow> bool" where
  "percentage_tie c t \<longleftrightarrow>
     of_int (exact_rounded_percentage c t) = (of_nat c :: rat) / of_nat t * 100 + 1 / 2"

text \<open>The items of card \<open>k\<close> after the restoration loop has visited the card.\<close>

definition restored :: "page \<Rightarrow> nat \<Rightarrow> checklist_item list" where
  "restored p k =
     map (restore_item (checklistId (cards p ! k)) (localStorage p)) (items (cards p ! k))"

subsection \<open>Example pages\<close>

text \<open>
  A page with one news item (node 1) whose mark-read button is node 0, and a badge that
  shows three unread entries.
\<close>

definition news_page :: page where
  "news_page =
     \<lparr>buttons = [0 \<mapsto> \<lparr>newsId = Some ''42'', news_item = Some 1\<rparr>],
      news_items = [1 \<mapsto> \<lparr>classList = [''news-item''], textContent = Plain ''Rates'',
                             style_width = Plain []\<rparr>],
      news_badge = Some \<lparr>classList = [''badge''], textContent = Plain ''3'',
                          style_width = Plain []\<rparr>,
      cards = [],
      localStorage = Map.empty,
      console = [],
      requests = []\<rparr>"

text \<open>
  A page with three checklist cards. Card A has four items, two of them required, with one
  required and one other item checked. Card B has three items, none required, one checked.
  Card C has neither items nor a progress bar.
\<close>

definition bar0 :: element where
  "bar0 = \<lparr>classList = [''progress-bar'', ''bg-danger''], textContent = Plain ''0%'',
            style_width = Plain ''0%''\<rparr>"

definition card_A :: card where
  "card_A =
     \<lparr>checklistId = Some ''A'',
      items = [\<lparr>itemId = Some ''1'', data_required = Some ''true'', checked = True\<rparr>,
               \<lparr>itemId = Some ''2'', data_required = Some ''true'', checked = False\<rparr>,
               \<lparr>itemId = Some ''3'', data_required = Some ''false'', checked = True\<rparr>,
               \<lparr>itemId = Some ''4'', data_required = None, checked = False\<rparr>],
      progress_bars = [bar0]\<rparr>"

definition card_B :: card where
  "card_B =
     \<lparr>checklistId = Some ''B'',
      items = [\<lparr>itemId = Some ''1'', data_required = None, checked = True\<rparr>,
               \<lparr>itemId = Some ''2'', data_required = None, checked = False\<rparr>,
               \<lparr>itemId = Some ''3'', data_required = None, checked = False\<rparr>],
      progress_bars = [bar0]\<rparr>"

definition card_C :: card where
  "card_C = \<lparr>checklistId = Some ''C'', items = [], progress_bars = []\<rparr>"

definition checklist_page :: page where
  "checklist_page =
     \<lparr>buttons = Map.empty, news_items = Map.empty, news_badge = None,
      cards = [card_A, card_B, card_C],
      localStorage = Map.empty, console = [], requests = []\<rparr>"

text \<open>
  The same cards as the server renders them again, with the storage the page had after
  the second checkbox of card B was ticked.
\<close>

definition reloaded_page :: page where
  "reloaded_page =
     checklist_page\<lparr>localStorage := localStorage (page_of (toggle 1 1 True checklist_page))\<rparr>"

text \<open>A page with one card of 40 items, 23 of them checked.\<close>

definition card_T :: card where
  "card_T =
     \<lparr>checklistId = Some ''T'',
      items = replicate 23 \<lparr>itemId = Some ''x'', data_required = None, checked = True\<rparr>
              @ replicate 17 \<lparr>itemId = Some ''y'', data_required = None, checked = False\<rparr>,
      progress_bars = [bar0]\<rparr>"

definition tie_page :: page where
  "tie_page =
     \<lparr>buttons = Map.empty, news_items = Map.empty, news_badge = None,
      cards = [card_T],
      localStorage = Map.empty, console = [], requests = []\<rparr>"

text \<open>
  A page whose first card has the identifier \<^verbatim>\<open>a"b\<close> and whose second card is card A,
  and the same cards as the server renders them again, with the storage the page had
  after the second checkbox of card A was ticked.
\<close>

definition card_Q :: card where
  "card_Q = \<lparr>checklistId = Some [CHR ''a'', CHR 0x22, CHR ''b''], items = [], progress_bars = []\<rparr>"

definition quote_page :: page where
  "quote_page =
     \<lparr>buttons = Map.empty, news_items = Map.empty, news_badge = None,
      cards = [card_Q, card_A],
      localStorage = Map.empty, console = [], requests = []\<rparr>"

definition quote_reloaded_page :: page where
  "quote_reloaded_page =
     quote_page\<lparr>localStorage := localStorage (page_of (toggle 1 1 True quote_page))\<rparr>"

section \<open>Properties\<close>

subsection \<open>Rounding to a double\<close>

lemma round_half_even_bounds:
  "of_int (round_half_even x) \<le> x + 1 / 2" "x - 1 / 2 \<le> of_int (round_half_even x)"
  unfolding round_half_even_def Let_def
  by (auto simp: not_less) linarith+

lemma round_half_even_nonneg: "0 \<le> x \<Longrightarrow> 0 \<le> round_half_even x"
  unfolding round_half_even_def Let_def by (auto simp: not_less)

lemma round_half_even_le_double:
  assumes "0 \<le> x"
  shows "of_int (round_half_even x) \<le> 2 * x"
proof (cases "x < 1 / 2")
  case True
  with assms have "\<lfloor>x\<rfloor> = 0" by (simp add: floor_eq_iff)
  with True assms show ?thesis by (simp add: round_half_even_def Let_def)
next
  case False
  with round_half_even_bounds(1)[of x] show ?thesis by simp
qed

text \<open>
  A value from zero up to half the overflow threshold rounds to a finite double that is
  not negative.
\<close>

lemma to_double_range:
  assumes "0 \<le> q" and "2 * q < 2 ^ 1024"
  shows "\<exists>r. to_double q = Fin r \<and> 0 \<le> r \<and> r \<le> 2 * q"
proof (cases "q = 0")
  case True
  then show ?thesis by (simp add: to_double_def)
next
  case False
  with assms have pos: "0 < q" by simp
  define e where "e = max (floor_log2 q - 52) (- 1074)"
  define r where "r = of_int (round_half_even (q / 2 powi e)) * (2::rat) powi e"
  have p2: "(0::rat) < 2 powi e" by (simp add: zero_less_power_int)
  then have x0: "0 \<le> q / 2 powi e" using pos by simp
  have "of_int (round_half_even (q / 2 powi e)) \<le> 2 * (q / 2 powi e)"
    by (rule round_half_even_le_double[OF x0])
  then have "of_int (round_half_even (q / 2 powi e)) * 2 powi e \<le> 2 * (q / 2 powi e) * 2 powi e"
    using p2 by (intro mult_right_mono) simp_all
  moreover have "2 * (q / 2 powi e) * 2 powi e = 2 * q" using p2 by simp
  ultimately have le: "r \<le> 2 * q" unfolding r_def by simp
  have ge: "0 \<le> r" unfolding r_def using round_half_even_nonneg[OF x0] p2 by simp
  have "r < 2 ^ 1024" using le assms(2) by (rule le_less_trans)
  then have "\<not> 2 ^ 1024 \<le> r" by (simp only: not_le)
  then have "to_double q = Fin r"
    using pos unfolding to_double_def Let_def e_def[symmetric] r_def[symmetric]
    by (simp only: not_le[symmetric] if_False)
  with le ge show ?thesis by blast
qed

lemma to_double_not_NaN: "to_double q \<noteq> NaN"
  by (simp add: to_double_def Let_def)

text \<open>\<open>floor_log2 q\<close> is the exponent of the binade of \<open>q\<close>.\<close>

lemma bitlen_pos: "0 < n \<Longrightarrow> 1 \<le> bitlen n"
  using bitlen_eq_zero_iff[of n] bitlen_nonneg[of n] by linarith

lemma bitlen_rat_bounds:
  assumes "0 < n"
  shows "(2::rat) powi (bitlen n - 1) \<le> of_int n" and "of_int n + 1 \<le> (2::rat) powi bitlen n"
proof -
  have b: "1 \<le> bitlen n" by (rule bitlen_pos[OF assms])
  from bitlen_bounds[OF assms]
  have lo: "2 ^ nat (bitlen n - 1) \<le> n" and hi: "n + 1 \<le> 2 ^ nat (bitlen n)"
    by simp_all
  have "(2::rat) powi (bitlen n - 1) = of_int (2 ^ nat (bitlen n - 1))"
    using b by (simp add: power_int_nonneg_exp)
  also have "\<dots> \<le> of_int n" using lo by (simp only: of_int_le_iff)
  finally show "(2::rat) powi (bitlen n - 1) \<le> of_int n" .
  have "(of_int n :: rat) + 1 = of_int (n + 1)" by simp
  also have "\<dots> \<le> of_int (2 ^ nat (bitlen n))" using hi by (simp only: of_int_le_iff)
  also have "\<dots> = (2::rat) powi bitlen n" using b by (simp add: power_int_nonneg_exp)
  finally show "of_int n + 1 \<le> (2::rat) powi bitlen n" .
qed

lemma floor_log2_bounds:
  assumes "0 < q"
  shows "2 powi floor_log2 q \<le> q" and "q < 2 powi (floor_log2 q + 1)"
proof -
  have "2 powi floor_log2 q \<le> q \<and> q < 2 powi (floor_log2 q + 1)"
  proof (cases "1 \<le> q")
    case True
    define n where "n = \<lfloor>q\<rfloor>"
    have n: "0 < n" using True by (simp add: n_def)
    have fl: "floor_log2 q = bitlen n - 1" using True by (simp add: floor_log2_def n_def)
    have "of_int n \<le> q" "q < of_int n + 1" using floor_correct[of q] by (simp_all add: n_def)
    with bitlen_rat_bounds[OF n] show ?thesis by (simp add: fl)
  next
    case False
    define x where "x = 1 / q"
    define n where "n = \<lceil>x\<rceil> - 1"
    have x1: "1 < x" using False assms by (simp add: x_def)
    then have "1 < \<lceil>x\<rceil>" by (simp add: less_ceiling_iff)
    then have n: "0 < n" by (simp add: n_def)
    have fl: "floor_log2 q = - bitlen n" using False by (simp add: floor_log2_def n_def x_def)
    have nx: "of_int n < x" "x \<le> of_int n + 1"
      using ceiling_correct[of x] by (simp_all add: n_def)
    from bitlen_rat_bounds[OF n] nx
    have lo: "(2::rat) powi (bitlen n - 1) < x" and hi: "x \<le> 2 powi bitlen n"
      by linarith+
    have pq: "q = 1 / x" using assms by (simp add: x_def)
    have xpos: "0 < x" using x1 by simp
    have p2: "(0::rat) < 2 powi (bitlen n - 1)"
      by (simp add: zero_less_power_int)
    have "2 powi (- bitlen n) = 1 / (2::rat) powi bitlen n" by (simp add: power_int_minus_divide)
    also have "\<dots> \<le> 1 / x" using hi xpos by (simp add: frac_le)
    finally have A: "2 powi (- bitlen n) \<le> q" by (simp add: pq)
    have ex: "- (bitlen n - 1) = - bitlen n + 1" by simp
    have "q = 1 / x" by (rule pq)
    also have "\<dots> < 1 / 2 powi (bitlen n - 1)" using lo p2 by (simp add: frac_less2)
    also have "\<dots> = 2 powi (- (bitlen n - 1))" by (simp only: power_int_minus_divide)
    also have "\<dots> = 2 powi (- bitlen n + 1)" by (simp only: ex)
    finally have B: "q < 2 powi (- bitlen n + 1)" .
    from A B show ?thesis by (simp add: fl)
  qed
  then show "2 powi floor_log2 q \<le> q" and "q < 2 powi (floor_log2 q + 1)" by simp_all
qed

lemma pow2_exponent_unique:
  fixes q :: rat
  assumes "2 powi E \<le> q" "q < 2 powi (E + 1)" "2 powi F \<le> q" "q < 2 powi (F + 1)"
  shows "E = F"
proof -
  have "(2::rat) powi E < 2 powi (F + 1)" using assms by linarith
  then have 1: "E < F + 1" by (metis power_int_increasing not_less one_le_numeral)
  have "(2::rat) powi F < 2 powi (E + 1)" using assms by linarith
  then have 2: "F < E + 1" by (metis power_int_increasing not_less one_le_numeral)
  from 1 2 show ?thesis by simp
qed

lemma floor_log2_eq:
  assumes "2 powi E \<le> q" and "q < 2 powi (E + 1)"
  shows "floor_log2 q = E"
proof -
  have "(0::rat) < 2 powi E" by (simp add: zero_less_power_int)
  with assms(1) have "0 < q" by linarith
  from floor_log2_bounds[OF this] assms show ?thesis
    by (intro pow2_exponent_unique[of _ q])
qed

text \<open>
  In the binade of exponent \<open>E\<close>, within the normal range, the unit in the last place is
  \<open>2 powi (E - 52)\<close>.
\<close>

lemma to_double_normal:
  assumes "2 powi E \<le> q" and "q < 2 powi (E + 1)" and "- 1022 \<le> E" and "E \<le> 1022"
  shows "to_double q = Fin (of_int (round_half_even (q / 2 powi (E - 52))) * 2 powi (E - 52))"
proof -
  define e where "e = E - 52"
  define m where "m = round_half_even (q / 2 powi e)"
  have pe: "(0::rat) < 2 powi e" by (simp add: zero_less_power_int)
  have "(0::rat) < 2 powi E" by (simp add: zero_less_power_int)
  with assms(1) have pos: "0 < q" by linarith
  have fl: "floor_log2 q = E" by (rule floor_log2_eq[OF assms(1,2)])
  have ex: "max (floor_log2 q - 52) (- 1074) = e" using assms(3) by (simp add: fl e_def)
  have e53: "53 + e = E + 1" by (simp add: e_def)
  have "q / 2 powi e < 2 powi (E + 1) / 2 powi e"
    using assms(2) pe by (simp add: divide_strict_right_mono)
  also have "\<dots> = 2 powi (E + 1 - e)" by (simp add: power_int_diff)
  also have "\<dots> = 2 ^ 53" by (simp add: e_def)
  finally have "q / 2 powi e < 2 ^ 53" .
  with round_half_even_bounds(1)[of "q / 2 powi e"]
  have "(of_int m :: rat) < of_int (2 ^ 53) + 1 / 2"
    by (simp add: m_def)
  then have "(of_int m :: rat) < of_int (2 ^ 53 + 1)" by simp
  then have "m < 2 ^ 53 + 1" by (simp only: of_int_less_iff)
  then have "(of_int m :: rat) \<le> 2 ^ 53" by simp
  then have "of_int m * 2 powi e \<le> 2 ^ 53 * (2::rat) powi e"
    using pe by (simp add: mult_right_mono)
  also have "\<dots> = 2 powi 53 * 2 powi e" by simp
  also have "\<dots> = 2 powi (53 + e)" by (rule power_int_add[symmetric]) simp
  also have "\<dots> = 2 powi (E + 1)" by (simp only: e53)
  also have "\<dots> \<le> 2 powi 1023" using assms(4) by (intro power_int_increasing) simp_all
  also have "\<dots> < 2 powi 1024" by (intro power_int_strict_increasing) simp_all
  finally have "of_int m * 2 powi e < (2::rat) ^ 1024" by (simp del: power_numeral)
  then have "\<not> 2 ^ 1024 \<le> of_int m * (2::rat) powi e" by (simp only: not_le)
  then show ?thesis
    using pos unfolding to_double_def Let_def ex m_def[symmetric] e_def[symmetric]
    by (simp only: not_le[symmetric] if_False)
qed

text \<open>Rounding a fraction of integers, by integer division.\<close>

lemma round_half_even_fraction:
  assumes "0 < b"
  shows "round_half_even (of_int a / of_int b) =
           (if 2 * (a mod b) < b then a div b
            else if b < 2 * (a mod b) then a div b + 1
            else if even (a div b) then a div b else a div b + 1)"
proof -
  have fl: "\<lfloor>(of_int a :: rat) / of_int b\<rfloor> = a div b" by (rule floor_divide_of_int_eq)
  have "(of_int a :: rat) = of_int (b * (a div b) + a mod b)" by simp
  also have "\<dots> = of_int b * of_int (a div b) + of_int (a mod b)" by (simp only: of_int_add of_int_mult)
  finally have "(of_int a :: rat) / of_int b = of_int (a div b) + of_int (a mod b) / of_int b"
    using assms by (simp add: field_simps)
  then have d: "(of_int a :: rat) / of_int b - of_int (a div b) = of_int (a mod b) / of_int b"
    by simp
  have lt: "(of_int (a mod b) :: rat) / of_int b < 1 / 2 \<longleftrightarrow> 2 * (a mod b) < b"
  proof -
    have "(of_int (a mod b) :: rat) / of_int b < 1 / 2 \<longleftrightarrow> (of_int (2 * (a mod b)) :: rat) < of_int b"
      using assms by (simp add: field_simps)
    then show ?thesis by (simp only: of_int_less_iff)
  qed
  have gt: "1 / 2 < (of_int (a mod b) :: rat) / of_int b \<longleftrightarrow> b < 2 * (a mod b)"
  proof -
    have "1 / 2 < (of_int (a mod b) :: rat) / of_int b \<longleftrightarrow> (of_int b :: rat) < of_int (2 * (a mod b))"
      using assms by (simp add: field_simps)
    then show ?thesis by (simp only: of_int_less_iff)
  qed
  show ?thesis
    unfolding round_half_even_def Let_def fl d lt gt by simp
qed

lemma round_half_even_numeral_fraction:
  "round_half_even (numeral a / numeral b) =
     (if 2 * (numeral a mod numeral b) < (numeral b :: int) then numeral a div numeral b
      else if (numeral b :: int) < 2 * (numeral a mod numeral b) then numeral a div numeral b + 1
      else if even (numeral a div numeral b :: int) then numeral a div numeral b
      else numeral a div numeral b + 1)"
  using round_half_even_fraction[of "numeral b" "numeral a"] by simp

lemma round_half_even_numeral: "round_half_even (numeral a) = numeral a"
  by (simp add: round_half_even_def)

lemmas round_half_even_eval = round_half_even_numeral_fraction round_half_even_numeral

lemma floor_numeral_fraction: "\<lfloor>(numeral a :: rat) / numeral b\<rfloor> = numeral a div numeral b"
  by (metis floor_divide_of_int_eq of_int_numeral)

lemma to_double_one_half: "to_double (1 / 2) = Fin (1 / 2)"
  by (subst to_double_normal[of "- 1"]) (simp_all add: round_half_even_eval)

lemma to_double_50: "to_double 50 = Fin 50"
  by (subst to_double_normal[of 5]) (simp_all add: round_half_even_eval)

lemma to_double_one_third: "to_double (1 / 3) = Fin (6004799503160661 / 18014398509481984)"
  by (subst to_double_normal[of "- 2"]) (simp_all add: round_half_even_eval)

lemma to_double_third_percent:
  "to_double (150119987579016525 / 4503599627370496) = Fin (2345624805922133 / 70368744177664)"
  by (subst to_double_normal[of 5]) (simp_all add: round_half_even_eval)

text \<open>
  Rounding does not cross a double: a value at most the double \<open>y\<close> rounds to at most
  \<open>y\<close>, and a value at least \<open>y\<close> to at least \<open>y\<close>. Here \<open>y\<close> has the 53-bit
  significand \<open>n\<close> in the binade of exponent \<open>E\<close>.
\<close>

lemma round_half_even_le_int:
  assumes "x \<le> of_int n"
  shows "round_half_even x \<le> n"
proof -
  have "(of_int (round_half_even x) :: rat) \<le> x + 1 / 2" by (rule round_half_even_bounds(1))
  also have "\<dots> < of_int (n + 1)" using assms by simp
  finally have "round_half_even x < n + 1" by (simp only: of_int_less_iff)
  then show ?thesis by simp
qed

lemma round_half_even_ge_int:
  assumes "of_int n \<le> x"
  shows "n \<le> round_half_even x"
proof -
  have "(of_int (n - 1) :: rat) < x - 1 / 2" using assms by simp
  also have "\<dots> \<le> of_int (round_half_even x)" by (rule round_half_even_bounds(2))
  finally have "n - 1 < round_half_even x" by (simp only: of_int_less_iff)
  then show ?thesis by simp
qed

lemma pow2_less_exponent:
  "(2::rat) powi a < 2 powi b \<Longrightarrow> a < b"
  by (metis power_int_increasing not_less one_le_numeral)

lemma representable_bounds:
  fixes y :: rat
  assumes "y = of_int n * 2 powi (E - 52)" and "2 ^ 52 \<le> n" and "n < 2 ^ 53"
  shows "2 powi E \<le> y" and "y < 2 powi (E + 1)"
proof -
  have pe: "(0::rat) < 2 powi (E - 52)" by (simp add: zero_less_power_int)
  have e1: "52 + (E - 52) = E" and e2: "53 + (E - 52) = E + 1" by simp_all
  have "(2::rat) powi E = 2 powi (52 + (E - 52))" by (simp only: e1)
  also have "\<dots> = 2 powi 52 * 2 powi (E - 52)" by (rule power_int_add) simp
  also have "\<dots> = of_int (2 ^ 52) * 2 powi (E - 52)" by simp
  also have "\<dots> \<le> of_int n * 2 powi (E - 52)"
  proof (rule mult_right_mono)
    show "(of_int (2 ^ 52) :: rat) \<le> of_int n" using assms(2) by (simp only: of_int_le_iff)
    show "(0::rat) \<le> 2 powi (E - 52)" using pe by (rule less_imp_le)
  qed
  finally show "2 powi E \<le> y" by (simp only: assms(1))
  have "(of_int n :: rat) < of_int (2 ^ 53)" using assms(3) by (simp only: of_int_less_iff)
  then have "of_int n * (2::rat) powi (E - 52) < of_int (2 ^ 53) * 2 powi (E - 52)"
    using pe by (rule mult_strict_right_mono)
  also have "\<dots> = 2 powi 53 * 2 powi (E - 52)" by simp
  also have "\<dots> = 2 powi (53 + (E - 52))" by (rule power_int_add[symmetric]) simp
  also have "\<dots> = 2 powi (E + 1)" by (simp only: e2)
  finally show "y < 2 powi (E + 1)" by (simp only: assms(1))
qed

lemma to_double_le_representable:
  assumes "0 \<le> q" and "q \<le> y"
    and y: "y = of_int n * 2 powi (E - 52)" "2 ^ 52 \<le> n" "n < 2 ^ 53"
    and E: "- 1021 \<le> E" "E \<le> 1022"
  shows "\<exists>r. to_double q = Fin r \<and> 0 \<le> r \<and> r \<le> y"
proof (cases "2 * q \<le> y")
  case True
  have "y < 2 powi (E + 1)" by (rule representable_bounds(2)[OF y])
  also have "\<dots> \<le> 2 powi 1024" using E(2) by (intro power_int_increasing) simp_all
  finally have "y < 2 ^ 1024" by (simp del: power_numeral)
  with True have "2 * q < 2 ^ 1024" by (rule le_less_trans)
  from to_double_range[OF assms(1) this] True show ?thesis by force
next
  case False
  have ylo: "2 powi E \<le> y" and yhi: "y < 2 powi (E + 1)"
    by (rule representable_bounds[OF y])+
  have e0: "1 + (E - 1) = E" by simp
  have "(2::rat) powi E = 2 powi (1 + (E - 1))" by (simp only: e0)
  also have "\<dots> = 2 powi 1 * 2 powi (E - 1)" by (rule power_int_add) simp
  finally have "2 * 2 powi (E - 1) \<le> y" using ylo by simp
  with False have qlo: "2 powi (E - 1) < q" by linarith
  have "(0::rat) < 2 powi (E - 1)" by (simp add: zero_less_power_int)
  with qlo have pos: "0 < q" by linarith
  define F where "F = floor_log2 q"
  have Fb: "2 powi F \<le> q" "q < 2 powi (F + 1)"
    unfolding F_def by (rule floor_log2_bounds[OF pos])+
  have "(2::rat) powi F < 2 powi (E + 1)" using Fb(1) assms(2) yhi by linarith
  then have FE: "F \<le> E" using pow2_less_exponent[of F "E + 1"] by simp
  have "(2::rat) powi (E - 1) < 2 powi (F + 1)" using qlo Fb(2) by linarith
  then have EF: "E - 1 \<le> F" using pow2_less_exponent[of "E - 1" "F + 1"] by simp
  define m where "m = round_half_even (q / 2 powi (F - 52))"
  have pf: "(0::rat) < 2 powi (F - 52)" by (simp add: zero_less_power_int)
  have td: "to_double q = Fin (of_int m * 2 powi (F - 52))"
    unfolding m_def using Fb E EF FE by (intro to_double_normal) simp_all
  have m0: "0 \<le> m" unfolding m_def using pos pf by (intro round_half_even_nonneg) simp
  then have r0: "0 \<le> of_int m * (2::rat) powi (F - 52)" using pf by simp
  have "of_int m * (2::rat) powi (F - 52) \<le> y"
  proof (cases "F = E")
    case True
    have "q / 2 powi (F - 52) \<le> y / 2 powi (F - 52)"
      using assms(2) pf by (simp add: divide_right_mono)
    also have "\<dots> = of_int n" using pf by (simp add: y(1) True)
    finally have "m \<le> n" unfolding m_def by (rule round_half_even_le_int)
    then have "(of_int m :: rat) \<le> of_int n" by (simp only: of_int_le_iff)
    then have "of_int m * (2::rat) powi (F - 52) \<le> of_int n * 2 powi (F - 52)"
      using pf by (intro mult_right_mono) simp_all
    then show ?thesis by (simp add: y(1) True)
  next
    case False
    with EF FE have F1: "F + 1 = E" by simp
    have e53: "53 + (F - 52) = F + 1" by simp
    have "q / 2 powi (F - 52) < 2 powi (F + 1) / 2 powi (F - 52)"
      using Fb(2) pf by (simp add: divide_strict_right_mono)
    also have "\<dots> = 2 powi (F + 1 - (F - 52))" by (rule power_int_diff[symmetric]) simp
    also have "\<dots> = 2 powi 53" by simp
    also have "\<dots> = of_int (2 ^ 53)" by simp
    finally have "q / 2 powi (F - 52) \<le> of_int (2 ^ 53)" by (rule less_imp_le)
    then have "m \<le> 2 ^ 53" unfolding m_def by (rule round_half_even_le_int)
    then have "(of_int m :: rat) \<le> of_int (2 ^ 53)" by (simp only: of_int_le_iff)
    then have "of_int m * (2::rat) powi (F - 52) \<le> of_int (2 ^ 53) * 2 powi (F - 52)"
      using pf by (intro mult_right_mono) simp_all
    also have "\<dots> = 2 powi 53 * 2 powi (F - 52)" by simp
    also have "\<dots> = 2 powi (53 + (F - 52))" by (rule power_int_add[symmetric]) simp
    also have "\<dots> = 2 powi E" by (simp only: e53 F1)
    finally show ?thesis using ylo by linarith
  qed
  with td r0 show ?thesis by blast
qed

lemma to_double_le_1:
  assumes "0 \<le> q" and "q \<le> 1"
  shows "\<exists>r. to_double q = Fin r \<and> 0 \<le> r \<and> r \<le> 1"
proof -
  have y: "(1::rat) = of_int (2 ^ 52) * 2 powi (0 - 52)" by simp
  have n: "(2::int) ^ 52 \<le> 2 ^ 52" "(2::int) ^ 52 < 2 ^ 53" by simp_all
  show ?thesis by (rule to_double_le_representable[OF assms y n]) simp_all
qed

lemma to_double_le_100:
  assumes "0 \<le> q" and "q \<le> 100"
  shows "\<exists>r. to_double q = Fin r \<and> 0 \<le> r \<and> r \<le> 100"
proof -
  have y: "(100::rat) = of_int (100 * 2 ^ 46) * 2 powi (6 - 52)" by simp
  have n: "(2::int) ^ 52 \<le> 100 * 2 ^ 46" "(100::int) * 2 ^ 46 < 2 ^ 53" by simp_all
  show ?thesis by (rule to_double_le_representable[OF assms y n]) simp_all
qed

text \<open>The percentage of a part of a whole is a finite number from 0 to 100.\<close>

lemma percentage_range:
  assumes "0 < t" and "c \<le> t"
  shows "\<exists>r. js_mul (js_div (num c) (num t)) (Fin 100) = Fin r \<and> 0 \<le> r \<and> r \<le> 100"
proof -
  define q :: rat where "q = of_nat c / of_nat t"
  have q: "0 \<le> q" "q \<le> 1" using assms by (simp_all add: q_def)
  from to_double_le_1[OF q] obtain r1 where r1: "to_double q = Fin r1" "0 \<le> r1" "r1 \<le> 1"
    by blast
  have d: "js_div (num c) (num t) = Fin r1" using assms(1) r1(1) by (simp add: num_def q_def)
  have "0 \<le> r1 * 100" "r1 * 100 \<le> 100" using r1 by simp_all
  from to_double_le_100[OF this] show ?thesis by (simp add: d)
qed

lemma to_double_positive:
  assumes "0 < q" and "to_double q = Fin r"
  shows "r = of_int (round_half_even (q / 2 powi max (floor_log2 q - 52) (- 1074)))
             * 2 powi max (floor_log2 q - 52) (- 1074)"
  using assms by (simp add: to_double_def Let_def split: if_splits)

lemma to_double_ge_representable:
  assumes "y \<le> q" and "to_double q = Fin r"
    and y: "y = of_int n * 2 powi (E - 52)" "2 ^ 52 \<le> n" "n < 2 ^ 53"
    and E: "- 1022 \<le> E"
  shows "y \<le> r"
proof -
  have ylo: "2 powi E \<le> y" and yhi: "y < 2 powi (E + 1)"
    by (rule representable_bounds[OF y])+
  have "(0::rat) < 2 powi E" by (simp add: zero_less_power_int)
  with ylo assms(1) have pos: "0 < q" by linarith
  define F where "F = floor_log2 q"
  have Fb: "2 powi F \<le> q" "q < 2 powi (F + 1)"
    unfolding F_def by (rule floor_log2_bounds[OF pos])+
  have "(2::rat) powi E < 2 powi (F + 1)" using ylo assms(1) Fb(2) by linarith
  then have EF: "E \<le> F" using pow2_less_exponent[of E "F + 1"] by simp
  then have ex: "max (F - 52) (- 1074) = F - 52" using E by simp
  define m where "m = round_half_even (q / 2 powi (F - 52))"
  have pf: "(0::rat) < 2 powi (F - 52)" by (simp add: zero_less_power_int)
  have r: "r = of_int m * 2 powi (F - 52)"
    using to_double_positive[OF pos assms(2)] unfolding F_def[symmetric] ex m_def .
  show ?thesis
  proof (cases "F = E")
    case True
    have "of_int n = y / 2 powi (F - 52)" using pf by (simp add: y(1) True)
    also have "\<dots> \<le> q / 2 powi (F - 52)" using assms(1) pf by (simp add: divide_right_mono)
    finally have "n \<le> m" unfolding m_def by (rule round_half_even_ge_int)
    then have "(of_int n :: rat) \<le> of_int m" by (simp only: of_int_le_iff)
    then have "of_int n * (2::rat) powi (F - 52) \<le> of_int m * 2 powi (F - 52)"
      using pf by (intro mult_right_mono) simp_all
    then show ?thesis by (simp add: y(1) True r)
  next
    case False
    with EF have F1: "E + 1 \<le> F" by simp
    have e52: "52 + (F - 52) = F" by simp
    have "(of_int (2 ^ 52) :: rat) = 2 powi 52" by simp
    also have "\<dots> = 2 powi (F - (F - 52))" by simp
    also have "\<dots> = 2 powi F / 2 powi (F - 52)" by (rule power_int_diff) simp
    also have "\<dots> \<le> q / 2 powi (F - 52)" using Fb(1) pf by (simp add: divide_right_mono)
    finally have "2 ^ 52 \<le> m" unfolding m_def by (rule round_half_even_ge_int)
    then have "(of_int (2 ^ 52) :: rat) \<le> of_int m" by (simp only: of_int_le_iff)
    then have "of_int (2 ^ 52) * (2::rat) powi (F - 52) \<le> of_int m * 2 powi (F - 52)"
      using pf by (intro mult_right_mono) simp_all
    moreover have "of_int (2 ^ 52) * (2::rat) powi (F - 52) = 2 powi 52 * 2 powi (F - 52)"
      by simp
    moreover have "(2::rat) powi 52 * 2 powi (F - 52) = 2 powi (52 + (F - 52))"
      by (rule power_int_add[symmetric]) simp
    ultimately have "2 powi F \<le> r" by (simp only: r e52)
    moreover have "(2::rat) powi (E + 1) \<le> 2 powi F"
      using F1 by (intro power_int_increasing) simp_all
    ultimately show ?thesis using yhi by linarith
  qed
qed

text \<open>
  The thresholds of the colour tier, in exact terms, for a part \<open>c\<close> of a whole \<open>t\<close>
  of at most \<open>2^32\<close> elements: the percentage is 100 exactly when the part is the whole,
  and at least 50 exactly when the part is at least half of the whole.
\<close>

lemma to_double_1: "to_double 1 = Fin 1"
  by (subst to_double_normal[of 0]) (simp_all add: round_half_even_eval)

lemma to_double_100: "to_double 100 = Fin 100"
  by (subst to_double_normal[of 6]) (simp_all add: round_half_even_eval)

lemma part_of_whole:
  fixes c t :: nat
  assumes "0 < t" and "c < t" and "t \<le> 2 ^ 32"
  shows "(of_nat c :: rat) / of_nat t \<le> 1 - 1 / 2 ^ 32"
proof -
  have "(of_nat c :: rat) \<le> of_nat t - 1"
    using assms(2) by (simp add: of_nat_diff flip: of_nat_Suc)
  then have "(of_nat c :: rat) / of_nat t \<le> (of_nat t - 1) / of_nat t"
    using assms(1) by (simp add: divide_right_mono)
  also have "\<dots> = 1 - 1 / of_nat t" using assms(1) by (simp add: field_simps)
  also have "\<dots> \<le> 1 - 1 / 2 ^ 32"
  proof -
    have "(of_nat t :: rat) \<le> of_nat (2 ^ 32)" using assms(3) by (simp only: of_nat_le_iff)
    then have "(1::rat) / 2 ^ 32 \<le> 1 / of_nat t" using assms(1) by (simp add: frac_le)
    then show ?thesis by simp
  qed
  finally show ?thesis .
qed

lemma percentage_100_iff:
  assumes "0 < t" and "c \<le> t" and "t \<le> 2 ^ 32"
  shows "js_eq (js_mul (js_div (num c) (num t)) (Fin 100)) (Fin 100) \<longleftrightarrow> c = t"
proof (cases "c = t")
  case True
  then show ?thesis using assms(1) by (simp add: num_def to_double_1 to_double_100)
next
  case False
  with assms(2) have lt: "c < t" by simp
  define q :: rat where "q = of_nat c / of_nat t"
  have q0: "0 \<le> q" by (simp add: q_def)
  have q1: "q \<le> 1 - 1 / 2 ^ 32" unfolding q_def by (rule part_of_whole[OF assms(1) lt assms(3)])
  have y1: "(1::rat) - 1 / 2 ^ 32 = of_int (2 ^ 53 - 2 ^ 21) * 2 powi (- 1 - 52)" by simp
  have n1: "(2::int) ^ 52 \<le> 2 ^ 53 - 2 ^ 21" "(2::int) ^ 53 - 2 ^ 21 < 2 ^ 53" by simp_all
  from to_double_le_representable[OF q0 q1 y1 n1]
  obtain r1 where r1: "to_double q = Fin r1" "0 \<le> r1" "r1 \<le> 1 - 1 / 2 ^ 32" by auto
  have d: "js_div (num c) (num t) = Fin r1" using assms(1) r1(1) by (simp add: num_def q_def)
  have a: "0 \<le> r1 * 100" using r1(2) by simp
  have b: "r1 * 100 \<le> 100 - 1 / 2 ^ 26" using r1(3) by simp
  have y2: "(100::rat) - 1 / 2 ^ 26 = of_int (100 * 2 ^ 46 - 2 ^ 20) * 2 powi (6 - 52)" by simp
  have n2: "(2::int) ^ 52 \<le> 100 * 2 ^ 46 - 2 ^ 20" "(100::int) * 2 ^ 46 - 2 ^ 20 < 2 ^ 53"
    by simp_all
  from to_double_le_representable[OF a b y2 n2]
  obtain r2 where r2: "to_double (r1 * 100) = Fin r2" "r2 \<le> 100 - 1 / 2 ^ 26" by auto
  then have "r2 \<noteq> 100" by auto
  then show ?thesis using False by (simp add: d r2(1))
qed

lemma percentage_50_iff:
  assumes "0 < t" and "c \<le> t" and "t \<le> 2 ^ 32"
  shows "js_ge (js_mul (js_div (num c) (num t)) (Fin 100)) (Fin 50) \<longleftrightarrow> t \<le> 2 * c"
proof (cases "t \<le> 2 * c")
  case True
  define q :: rat where "q = of_nat c / of_nat t"
  have "(of_nat t :: rat) \<le> of_nat (2 * c)" using True by (simp only: of_nat_le_iff)
  then have qh: "1 / 2 \<le> q" using assms(1) by (simp add: q_def field_simps)
  have q: "0 \<le> q" "q \<le> 1" using assms by (simp_all add: q_def)
  from to_double_le_1[OF q] obtain r1 where r1: "to_double q = Fin r1" "0 \<le> r1" "r1 \<le> 1"
    by blast
  have yh: "(1::rat) / 2 = of_int (2 ^ 52) * 2 powi (- 1 - 52)" by simp
  have nh: "(2::int) ^ 52 \<le> 2 ^ 52" "(2::int) ^ 52 < 2 ^ 53" by simp_all
  have h1: "1 / 2 \<le> r1" by (rule to_double_ge_representable[OF qh r1(1) yh nh]) simp
  have d: "js_div (num c) (num t) = Fin r1" using assms(1) r1(1) by (simp add: num_def q_def)
  have "0 \<le> r1 * 100" "r1 * 100 \<le> 100" using r1 by simp_all
  from to_double_le_100[OF this] obtain r2 where r2: "to_double (r1 * 100) = Fin r2" by blast
  have y5: "(50::rat) = of_int (50 * 2 ^ 47) * 2 powi (5 - 52)" by simp
  have n5: "(2::int) ^ 52 \<le> 50 * 2 ^ 47" "(50::int) * 2 ^ 47 < 2 ^ 53" by simp_all
  have "50 \<le> r1 * 100" using h1 by simp
  then have "50 \<le> r2" by (rule to_double_ge_representable[OF _ r2 y5 n5]) simp
  then show ?thesis using True by (simp add: d r2)
next
  case False
  then have lt: "2 * c < t" by simp
  define q :: rat where "q = of_nat c / of_nat t"
  have q0: "0 \<le> q" by (simp add: q_def)
  have "(of_nat (2 * c) :: rat) / of_nat t \<le> 1 - 1 / 2 ^ 32"
    by (rule part_of_whole[OF assms(1) lt assms(3)])
  moreover have "(of_nat (2 * c) :: rat) / of_nat t = 2 * q" by (simp add: q_def)
  ultimately have "2 * q \<le> 1 - 1 / 2 ^ 32" by (simp only:)
  then have q1: "q \<le> 1 / 2 - 1 / 2 ^ 33" by simp
  have y3: "(1::rat) / 2 - 1 / 2 ^ 33 = of_int (2 ^ 53 - 2 ^ 21) * 2 powi (- 2 - 52)" by simp
  have n3: "(2::int) ^ 52 \<le> 2 ^ 53 - 2 ^ 21" "(2::int) ^ 53 - 2 ^ 21 < 2 ^ 53" by simp_all
  from to_double_le_representable[OF q0 q1 y3 n3]
  obtain r1 where r1: "to_double q = Fin r1" "0 \<le> r1" "r1 \<le> 1 / 2 - 1 / 2 ^ 33" by auto
  have d: "js_div (num c) (num t) = Fin r1" using assms(1) r1(1) by (simp add: num_def q_def)
  have a: "0 \<le> r1 * 100" using r1(2) by simp
  have b: "r1 * 100 \<le> 50 - 1 / 2 ^ 27" using r1(3) by simp
  have y4: "(50::rat) - 1 / 2 ^ 27 = of_int (50 * 2 ^ 47 - 2 ^ 20) * 2 powi (5 - 52)" by simp
  have n4: "(2::int) ^ 52 \<le> 50 * 2 ^ 47 - 2 ^ 20" "(50::int) * 2 ^ 47 - 2 ^ 20 < 2 ^ 53"
    by simp_all
  from to_double_le_representable[OF a b y4 n4]
  obtain r2 where r2: "to_double (r1 * 100) = Fin r2" "r2 \<le> 50 - 1 / 2 ^ 27" by auto
  then have "\<not> 50 \<le> r2" by auto
  then show ?thesis using False by (simp add: d r2(1))
qed

text \<open>
  The percentage itself is not always the exact quotient: 23 of 40 is 57.5 exactly, and
  57.49999999999999 in double precision, which \<^verbatim>\<open>Math.round\<close> takes to 57.
\<close>

lemma to_double_23_40: "to_double (23 / 40) = Fin (2589569785738035 / 4503599627370496)"
  by (subst to_double_normal[of "- 1"]) (simp_all add: round_half_even_eval)

lemma to_double_23_40_percent:
  "to_double (64739244643450875 / 1125899906842624) = Fin (8092405580431359 / 140737488355328)"
  by (subst to_double_normal[of 5]) (simp_all add: round_half_even_eval)

lemma double_precision_tie:
  "js_mul (js_div (num 23) (num 40)) (Fin 100) = Fin (8092405580431359 / 140737488355328)"
  "Math_round (js_mul (js_div (num 23) (num 40)) (Fin 100)) = Fin 57"
  "\<lfloor>(23::rat) / 40 * 100 + 1 / 2\<rfloor> = 58"
  by (simp_all add: num_def to_double_23_40 to_double_23_40_percent floor_numeral_fraction)

text \<open>
  The error of the percentage. A rounding to double precision within the normal range
  moves a number by at most the fraction \<open>1 / 2^53\<close> of itself; the quotient and the
  product together leave the computed percentage within \<open>1 / 2^45\<close> of the exact one.
\<close>

lemma to_double_error:
  assumes "2 powi (- 1022) \<le> q" and "q < 2 powi 1023"
  shows "\<exists>r. to_double q = Fin r \<and> \<bar>r - q\<bar> \<le> q / 2 ^ 53"
proof -
  have "(0::rat) < 2 powi (- 1022)" by (simp add: zero_less_power_int)
  with assms(1) have pos: "0 < q" by linarith
  define E where "E = floor_log2 q"
  define e where "e = E - 52"
  define m where "m = round_half_even (q / 2 powi e)"
  have b: "2 powi E \<le> q" "q < 2 powi (E + 1)"
    using floor_log2_bounds[OF pos] by (simp_all add: E_def)
  have "(2::rat) powi (- 1022) < 2 powi (E + 1)" using assms(1) b(2) by linarith
  then have lo: "- 1022 \<le> E" using pow2_less_exponent by fastforce
  have "(2::rat) powi E < 2 powi 1023" using assms(2) b(1) by linarith
  then have hi: "E \<le> 1022" using pow2_less_exponent by fastforce
  have td: "to_double q = Fin (of_int m * 2 powi e)"
    unfolding m_def e_def by (rule to_double_normal[OF b lo hi])
  have pe: "(0::rat) < 2 powi e" by (simp add: zero_less_power_int)
  have "\<bar>of_int m - q / 2 powi e\<bar> \<le> 1 / 2"
    using round_half_even_bounds[of "q / 2 powi e"] unfolding m_def by linarith
  then have le: "\<bar>of_int m - q / 2 powi e\<bar> * 2 powi e \<le> 1 / 2 * 2 powi e"
    using pe by (simp add: mult_right_mono)
  have eq: "\<bar>of_int m - q / 2 powi e\<bar> * 2 powi e = \<bar>of_int m * 2 powi e - q\<bar>"
  proof -
    have "\<bar>of_int m - q / 2 powi e\<bar> * 2 powi e = \<bar>(of_int m - q / 2 powi e) * 2 powi e\<bar>"
      using pe by (simp add: abs_mult)
    also have "(of_int m - q / 2 powi e) * 2 powi e = of_int m * 2 powi e - q"
      using pe by (simp add: field_simps)
    finally show ?thesis .
  qed
  have pw: "(2::rat) powi e = 2 powi E / 2 ^ 52"
    by (simp add: e_def power_int_diff)
  have "\<bar>of_int m * 2 powi e - q\<bar> \<le> 1 / 2 * 2 powi e" using le unfolding eq .
  also have "1 / 2 * (2::rat) powi e = 2 powi E / 2 ^ 53" unfolding pw by simp
  also have "(2::rat) powi E / 2 ^ 53 \<le> q / 2 ^ 53" using b(1) by (simp add: divide_right_mono)
  finally show ?thesis using td by simp
qed

lemma percentage_error:
  assumes "0 < t" and "c \<le> t" and "t \<le> 2 ^ 32"
  shows "\<exists>r. js_mul (js_div (num c) (num t)) (Fin 100) = Fin r
           \<and> \<bar>r - of_nat c / of_nat t * 100\<bar> < 1 / 2 ^ 45"
proof (cases "c = 0")
  case True
  then show ?thesis using assms(1) by (simp add: num_def to_double_def)
next
  case False
  define q :: rat where "q = of_nat c / of_nat t"
  have tpos: "(0::rat) < of_nat t" using assms(1) by simp
  have "(of_nat t :: rat) \<le> of_nat (2 ^ 32)" using assms(3) by (simp only: of_nat_le_iff)
  then have t32: "(of_nat t :: rat) \<le> 2 ^ 32" by simp
  have "(1::rat) \<le> of_nat c" using False by (simp add: Suc_le_eq flip: of_nat_Suc)
  then have "1 / of_nat t \<le> q" unfolding q_def using tpos by (simp add: divide_right_mono)
  moreover have "(1::rat) / 2 ^ 32 \<le> 1 / of_nat t" using tpos t32 by (simp add: frac_le)
  ultimately have qlo: "1 / 2 ^ 32 \<le> q" by linarith
  have "(of_nat c :: rat) \<le> of_nat t" using assms(2) by (simp only: of_nat_le_iff)
  then have qhi: "q \<le> 1" unfolding q_def using tpos by simp
  have "(2::rat) powi (- 1022) \<le> 1 / 2 ^ 32" by (simp add: power_int_minus field_simps)
  with qlo have n1: "2 powi (- 1022) \<le> q" by linarith
  have "(1::rat) < 2 powi 1023" by simp
  with qhi have n2: "q < 2 powi 1023" by linarith
  from to_double_error[OF n1 n2]
  obtain r1 where r1: "to_double q = Fin r1" "\<bar>r1 - q\<bar> \<le> q / 2 ^ 53" by blast
  have d: "js_div (num c) (num t) = Fin r1" using assms(1) r1(1) by (simp add: num_def q_def)
  have qpos: "0 < q" using qlo by (simp add: field_simps)
  have "q / 2 ^ 53 \<le> q / 2" by (rule divide_left_mono) (use qpos in simp_all)
  then have "q / 2 \<le> r1" using r1(2) by linarith
  moreover have "1 / 2 ^ 32 / 2 \<le> q / 2" using qlo by (simp only: divide_right_mono zero_le_numeral)
  ultimately have r1lo: "1 / 2 ^ 33 \<le> r1" by simp
  have "q / 2 ^ 53 \<le> 1 / 2 ^ 53" using qhi by (simp only: divide_right_mono zero_le_numeral zero_le_power)
  then have r1hi: "r1 \<le> 1 + 1 / 2 ^ 53" using r1(2) qhi by linarith
  have "(2::rat) powi (- 1022) \<le> 100 / 2 ^ 33" by (simp add: power_int_minus field_simps)
  moreover have "100 / 2 ^ 33 \<le> r1 * 100" using r1lo by simp
  ultimately have m1: "2 powi (- 1022) \<le> r1 * 100" by linarith
  have "r1 * 100 \<le> 200" using r1hi by simp
  moreover have "(200::rat) < 2 powi 1023" by simp
  ultimately have m2: "r1 * 100 < 2 powi 1023" by linarith
  from to_double_error[OF m1 m2]
  obtain r2 where r2: "to_double (r1 * 100) = Fin r2" "\<bar>r2 - r1 * 100\<bar> \<le> r1 * 100 / 2 ^ 53"
    by blast
  have "\<bar>r1 * 100 - q * 100\<bar> = \<bar>r1 - q\<bar> * 100"
    by (simp only: abs_mult abs_numeral flip: left_diff_distrib)
  then have "\<bar>r1 * 100 - q * 100\<bar> \<le> q / 2 ^ 53 * 100" using r1(2) by simp
  moreover have "\<bar>r2 - q * 100\<bar> \<le> \<bar>r2 - r1 * 100\<bar> + \<bar>r1 * 100 - q * 100\<bar>" by linarith
  ultimately have "\<bar>r2 - q * 100\<bar> \<le> r1 * 100 / 2 ^ 53 + q / 2 ^ 53 * 100"
    using r2(2) by linarith
  also have "\<dots> \<le> (1 + 1 / 2 ^ 53) * 100 / 2 ^ 53 + 1 / 2 ^ 53 * 100"
    using r1hi qhi by (simp add: field_simps)
  also have "\<dots> < 1 / 2 ^ 45" by simp
  finally show ?thesis by (simp add: d r2(1) q_def)
qed

text \<open>
  A quotient of whole numbers that is not whole is at least the inverse of its denominator
  away from the whole numbers on both sides; a number nearer to it than that has the same
  floor.
\<close>

lemma fraction_gap:
  fixes n d :: int and u :: rat
  assumes "0 < d" and "u = of_int n / of_int d" and "of_int \<lfloor>u\<rfloor> \<noteq> u"
  shows "of_int \<lfloor>u\<rfloor> + 1 / of_int d \<le> u" and "u + 1 / of_int d \<le> of_int \<lfloor>u\<rfloor> + 1"
proof -
  define f where "f = \<lfloor>u\<rfloor>"
  have dpos: "(0::rat) < of_int d" using assms(1) by simp
  have n: "(of_int n :: rat) = u * of_int d" using dpos by (simp add: assms(2))
  have "of_int f \<le> u" by (simp add: f_def)
  moreover have "of_int f \<noteq> u" using assms(3) unfolding f_def .
  ultimately have "of_int f < u" by linarith
  then have "of_int f * of_int d < u * (of_int d :: rat)" using dpos by (simp only: mult_strict_right_mono)
  then have "(of_int (f * d) :: rat) < of_int n" by (simp add: n)
  then have "f * d < n" by (simp only: of_int_less_iff)
  then have "f * d + 1 \<le> n" by simp
  then have "(of_int (f * d + 1) :: rat) \<le> of_int n" by (simp only: of_int_le_iff)
  then have "of_int f * of_int d + 1 \<le> u * of_int d" by (simp add: n)
  moreover have "(of_int f + 1 / of_int d) * of_int d = of_int f * of_int d + (1::rat)"
    using dpos by (simp add: distrib_right)
  ultimately have "(of_int f + 1 / of_int d) * of_int d \<le> u * of_int d" by simp
  then have "of_int f + 1 / of_int d \<le> u" using dpos by (rule mult_right_le_imp_le)
  then show "of_int \<lfloor>u\<rfloor> + 1 / of_int d \<le> u" by (simp only: f_def)
  have "u < of_int f + 1" unfolding f_def by linarith
  then have "u * of_int d < (of_int f + 1) * (of_int d :: rat)"
    using dpos by (simp only: mult_strict_right_mono)
  then have "(of_int n :: rat) < of_int ((f + 1) * d)" by (simp add: n)
  then have "n < (f + 1) * d" by (simp only: of_int_less_iff)
  then have "n + 1 \<le> (f + 1) * d" by simp
  then have "(of_int (n + 1) :: rat) \<le> of_int ((f + 1) * d)" by (simp only: of_int_le_iff)
  then have "u * of_int d + 1 \<le> (of_int f + 1) * of_int d" by (simp add: n)
  moreover have "(u + 1 / of_int d) * of_int d = u * of_int d + (1::rat)"
    using dpos by (simp add: distrib_right)
  ultimately have "(u + 1 / of_int d) * of_int d \<le> (of_int f + 1) * of_int d" by simp
  then have "u + 1 / of_int d \<le> of_int f + 1" using dpos by (rule mult_right_le_imp_le)
  then show "u + 1 / of_int d \<le> of_int \<lfloor>u\<rfloor> + 1" by (simp only: f_def)
qed

text \<open>
  Rounding the computed percentage: away from the ties it gives the exactly rounded
  percentage; at a tie it gives that number or the one below.
\<close>

lemma rounded_percentage_near:
  assumes "0 < t" and "c \<le> t" and "t \<le> 2 ^ 32"
  shows "\<exists>k. Math_round (js_mul (js_div (num c) (num t)) (Fin 100)) = Fin (of_int k)
           \<and> (if percentage_tie c t
               then k = exact_rounded_percentage c t \<or> k = exact_rounded_percentage c t - 1
               else k = exact_rounded_percentage c t)"
proof -
  define x :: rat where "x = of_nat c / of_nat t * 100 + 1 / 2"
  define n :: int where "n = 200 * int c + int t"
  define d :: int where "d = 2 * int t"
  have dpos: "0 < d" using assms(1) by (simp add: d_def)
  have x: "x = of_int n / of_int d"
    using assms(1) by (simp add: x_def n_def d_def field_simps)
  from percentage_error[OF assms]
  obtain r where r: "js_mul (js_div (num c) (num t)) (Fin 100) = Fin r"
    "\<bar>r - of_nat c / of_nat t * 100\<bar> < 1 / 2 ^ 45" by blast
  define y where "y = r + 1 / 2"
  have near: "x - 1 / 2 ^ 45 < y" "y < x + 1 / 2 ^ 45"
    using r(2) unfolding x_def y_def by linarith+
  have mr: "Math_round (js_mul (js_div (num c) (num t)) (Fin 100)) = Fin (of_int \<lfloor>y\<rfloor>)"
    by (simp add: r(1) y_def)
  have ex: "exact_rounded_percentage c t = \<lfloor>x\<rfloor>"
    by (simp add: exact_rounded_percentage_def x_def)
  have tie: "percentage_tie c t \<longleftrightarrow> of_int \<lfloor>x\<rfloor> = x"
    by (simp add: percentage_tie_def exact_rounded_percentage_def x_def)
  have "(of_int d :: rat) \<le> of_int (2 ^ 33)"
    using assms(3) by (simp only: of_int_le_iff) (simp add: d_def)
  then have "(1::rat) / 2 ^ 33 \<le> 1 / of_int d" using dpos by (simp add: frac_le)
  then have gap: "(1::rat) / 2 ^ 45 < 1 / of_int d" by simp
  have eps: "(1::rat) / 2 ^ 45 < 1" by simp
  show ?thesis
  proof (cases "percentage_tie c t")
    case True
    then have "of_int \<lfloor>x\<rfloor> = x" by (simp add: tie)
    then have "of_int \<lfloor>x\<rfloor> - 1 \<le> y" "y < of_int \<lfloor>x\<rfloor> + 1" using near eps by linarith+
    then have "\<lfloor>x\<rfloor> - 1 \<le> \<lfloor>y\<rfloor>" "\<lfloor>y\<rfloor> < \<lfloor>x\<rfloor> + 1"
      using le_floor_iff[of "\<lfloor>x\<rfloor> - 1" y] floor_less_iff[of y "\<lfloor>x\<rfloor> + 1"] by simp_all
    then have "\<lfloor>y\<rfloor> = \<lfloor>x\<rfloor> \<or> \<lfloor>y\<rfloor> = \<lfloor>x\<rfloor> - 1" by linarith
    then show ?thesis using True mr ex by auto
  next
    case False
    then have ne: "of_int \<lfloor>x\<rfloor> \<noteq> x" by (simp add: tie)
    from fraction_gap[OF dpos x ne]
    have "of_int \<lfloor>x\<rfloor> + 1 / of_int d \<le> x" "x + 1 / of_int d \<le> of_int \<lfloor>x\<rfloor> + 1" .
    then have "of_int \<lfloor>x\<rfloor> \<le> y" "y < of_int \<lfloor>x\<rfloor> + 1" using near gap by linarith+
    then have "\<lfloor>y\<rfloor> = \<lfloor>x\<rfloor>" by (simp add: floor_unique)
    then show ?thesis using False mr ex by simp
  qed
qed

text \<open>
  Both cases of a tie occur: 1 of 8 is 12.5 exactly, also in double precision, and the
  rounding gives 13; 23 of 40 is the tie that is computed below its exact value.
\<close>

lemma tie_examples:
  "percentage_tie 1 8" "exact_rounded_percentage 1 8 = 13"
  "Math_round (js_mul (js_div (num 1) (num 8)) (Fin 100)) = Fin 13"
  "percentage_tie 23 40" "exact_rounded_percentage 23 40 = 58"
  "Math_round (js_mul (js_div (num 23) (num 40)) (Fin 100)) = Fin 57"
proof -
  have a: "to_double (1 / 8) = Fin (1 / 8)"
    by (subst to_double_normal[of "- 3"]) (simp_all add: round_half_even_eval)
  have b: "to_double (25 / 2) = Fin (25 / 2)"
    by (subst to_double_normal[of 3]) (simp_all add: round_half_even_eval)
  show "percentage_tie 1 8" "exact_rounded_percentage 1 8 = 13"
    "percentage_tie 23 40" "exact_rounded_percentage 23 40 = 58"
    by (simp_all add: percentage_tie_def exact_rounded_percentage_def floor_numeral_fraction)
  show "Math_round (js_mul (js_div (num 1) (num 8)) (Fin 100)) = Fin 13"
    by (simp add: num_def a b floor_numeral_fraction)
  show "Math_round (js_mul (js_div (num 23) (num 40)) (Fin 100)) = Fin 57"
    by (rule double_precision_tie(2))
qed

subsection \<open>Progress recomputation\<close>

lemma first_index_SomeD:
  "first_index P xs = Some i \<Longrightarrow> i < length xs \<and> P (xs ! i)"
  by (induction xs arbitrary: i) (auto split: if_splits)

lemma first_index_map:
  "first_index (\<lambda>c. f c = v) xs = first_index (\<lambda>x. x = v) (map f xs)"
  by (induction xs) simp_all

lemma querySelector_card_InrD:
  "querySelector_card cid p = Inr i \<Longrightarrow> i < length (cards p)"
  unfolding querySelector_card_def
  by (cases "selector_value cid") (auto split: if_splits option.splits dest: first_index_SomeD)

text \<open>The lookup reads the identifiers of the cards and nothing else of the page.\<close>

lemma querySelector_card_ids:
  assumes "map checklistId (cards p') = map checklistId (cards p)"
  shows "querySelector_card cid p' = querySelector_card cid p"
proof -
  have "first_index (\<lambda>c. checklistId c = Some v) (cards p')
      = first_index (\<lambda>c. checklistId c = Some v) (cards p)" for v
    unfolding first_index_map[of checklistId] assms ..
  then show ?thesis
    unfolding querySelector_card_def by (cases "selector_value cid") simp_all
qed

text \<open>
  For a plain identifier the selector is the attribute selector for that identifier: the
  lookup is the first card that carries it.
\<close>

lemma preprocess_Cons:
  "CHR 0x0D \<noteq> c \<Longrightarrow> CHR 0x0C \<noteq> c \<Longrightarrow> CHR 0x00 \<noteq> c
     \<Longrightarrow> preprocess (c # cs) = c # preprocess cs"
  by (cases cs) (auto simp: preprocess_one_def)

lemma in_string_plain:
  "CHR 0x22 \<noteq> c \<Longrightarrow> CHR 0x0A \<noteq> c \<Longrightarrow> CHR 0x5C \<noteq> c
     \<Longrightarrow> in_string acc c = InString (acc @ [c])"
  by (auto simp: in_string_def)

lemma preprocess_plain:
  "plain_identifier s \<Longrightarrow> preprocess (s @ t) = s @ preprocess t"
  by (induction s) (simp_all add: plain_identifier_def preprocess_Cons)

lemma scan_plain:
  "plain_identifier s
     \<Longrightarrow> foldl scan_step (InString acc) (s @ t) = foldl scan_step (InString (acc @ s)) t"
  by (induction s arbitrary: acc) (simp_all add: plain_identifier_def in_string_plain)

lemma selector_value_plain:
  assumes "plain_identifier s"
  shows "selector_value s = Closed s '']''"
proof -
  have "preprocess [CHR 0x22, CHR '']''] = [CHR 0x22, CHR '']'']"
    by (simp add: preprocess_one_def)
  then show ?thesis
    unfolding selector_value_def preprocess_plain[OF assms] scan_plain[OF assms]
    by (simp add: in_string_def)
qed

lemma querySelector_card_plain:
  "plain_identifier cid \<Longrightarrow>
     querySelector_card cid p =
       (case first_index (\<lambda>c. checklistId c = Some cid) (cards p) of
          None \<Rightarrow> Inl TypeError
        | Some i \<Rightarrow> Inr i)"
  by (simp add: querySelector_card_def selector_value_plain)

text \<open>With a card and a progress bar found, the call returns and repaints that bar.\<close>

lemma updateChecklistProgress_bar:
  assumes "querySelector_card (tmpl cid) p = Inr i"
    and "querySelector_progress_bar (cards p ! i) = Some progressBar"
  shows "\<exists>p'. updateChecklistProgress cid p = Normal p'
           \<and> querySelector_progress_bar (cards p' ! i)
               = Some (paint (progress (cards p ! i)) (requiredProgress (cards p ! i)) progressBar)"
  using assms querySelector_card_InrD[OF assms(1)]
  by (simp add: updateChecklistProgress_def Let_def querySelector_progress_bar_def)

lemma textContent_paint: "textContent (paint prog req bar) = Percent (Math_round prog)"
  by (simp add: paint_def Let_def)

lemma style_width_paint:
  "style_width (paint (Fin q) req bar) = (if 0 \<le> q then Percent (Fin q) else style_width bar)"
  by (simp add: paint_def Let_def set_style_width_percent_def)

lemma tiers_shown_paint:
  "tiers_shown (paint prog req bar) =
     (if js_eq req (Fin 100) then [Success] else if js_ge req (Fin 50) then [Warning] else [Danger])"
  by (simp add: tiers_shown_def paint_def Let_def classList_add_def classList_remove_def)

text \<open>
  Both percentages are finite numbers from 0 to 100: the overall one when the card has an
  item, the required one always.
\<close>

lemma progress_range:
  assumes "items c \<noteq> []"
  shows "\<exists>r. progress c = Fin r \<and> 0 \<le> r \<and> r \<le> 100"
proof -
  have "0 < totalItems c" using assms by (simp add: totalItems_def)
  moreover have "checkedItems c \<le> totalItems c" by (simp add: checkedItems_def totalItems_def)
  ultimately show ?thesis unfolding progress_def by (rule percentage_range)
qed

lemma requiredProgress_range:
  "\<exists>r. requiredProgress c = Fin r \<and> 0 \<le> r \<and> r \<le> 100"
proof (cases "0 < totalRequired c")
  case True
  moreover have "checkedRequired c \<le> totalRequired c"
    by (simp add: checkedRequired_def totalRequired_def)
  ultimately show ?thesis using percentage_range by (simp add: requiredProgress_def)
next
  case False
  then show ?thesis by (simp add: requiredProgress_def)
qed

lemma tier_of_range:
  assumes "r \<le> 100"
  shows "(\<not> js_eq (Fin r) (Fin 100) \<and> js_ge (Fin r) (Fin 50))
           = (js_ge (Fin r) (Fin 50) \<and> js_lt (Fin r) (Fin 100))"
    and "(\<not> js_eq (Fin r) (Fin 100) \<and> \<not> js_ge (Fin r) (Fin 50)) = js_lt (Fin r) (Fin 50)"
  using assms by auto

text \<open>The example cards.\<close>

lemma checklist_page_cards:
  "cards checklist_page = [card_A, card_B, card_C]"
  by (simp add: checklist_page_def)

lemma checklist_page_lookup:
  "querySelector_card (tmpl (Some ''A'')) checklist_page = Inr 0"
  "querySelector_card (tmpl (Some ''B'')) checklist_page = Inr 1"
  "querySelector_card (tmpl (Some ''C'')) checklist_page = Inr 2"
  by (simp_all add: querySelector_card_plain plain_identifier_def tmpl_def checklist_page_cards
      card_A_def card_B_def card_C_def)

text \<open>
  Identifiers that are not plain, looked up on the example page: \<^verbatim>\<open>\41\<close> is an
  escape for \<^verbatim>\<open>A\<close> and finds card A; \<^verbatim>\<open>a\b\<close> is \<^verbatim>\<open>a\<close> followed by
  the escape for U+000B and finds nothing; \<^verbatim>\<open>a"b\<close> gives an invalid selector.
\<close>

lemma escaped_identifier_lookup:
  "querySelector_card [CHR 0x5C, CHR ''4'', CHR ''1''] checklist_page = Inr 0"
  "querySelector_card [CHR ''a'', CHR 0x5C, CHR ''b''] checklist_page = Inl TypeError"
  "querySelector_card [CHR ''a'', CHR 0x22, CHR ''b''] p = Inl SyntaxError"
  by (simp_all add: querySelector_card_def selector_value_def in_string_def preprocess_one_def
      hex_value_def escaped_code_point_def utf8_def byte_def continues_selector_def
      checklist_page_cards card_A_def card_B_def card_C_def)

lemma example_bars:
  "querySelector_progress_bar (cards checklist_page ! 0) = Some bar0"
  "querySelector_progress_bar (cards checklist_page ! 1) = Some bar0"
  "querySelector_progress_bar (cards checklist_page ! 2) = None"
  by (simp_all add: querySelector_progress_bar_def checklist_page_cards
      card_A_def card_B_def card_C_def)

lemma card_A_counts:
  "totalItems card_A = 4" "checkedItems card_A = 2"
  "totalRequired card_A = 2" "checkedRequired card_A = 1"
  by (simp_all add: totalItems_def checkedItems_def totalRequired_def checkedRequired_def
      requiredItems_def card_A_def)

lemma card_B_counts:
  "totalItems card_B = 3" "checkedItems card_B = 1" "totalRequired card_B = 0"
  by (simp_all add: totalItems_def checkedItems_def totalRequired_def requiredItems_def card_B_def)

lemma card_A_progress: "progress card_A = Fin 50" "requiredProgress card_A = Fin 50"
  by (simp_all add: progress_def requiredProgress_def card_A_counts num_def
      to_double_one_half to_double_50)

lemma card_B_progress:
  "progress card_B = Fin (2345624805922133 / 70368744177664)" "requiredProgress card_B = Fin 100"
  by (simp_all add: progress_def requiredProgress_def card_B_counts num_def
      to_double_one_third to_double_third_percent)

lemma card_B_label: "Math_round (progress card_B) = Fin 33"
  by (simp add: card_B_progress floor_numeral_fraction)

text \<open>
  C3, as the claim states it, fails: the label is the rounded percentage, the width is
  not. On card B, one item of three checked, the label becomes \<^verbatim>\<open>33%\<close> and the width
  the unrounded \<^verbatim>\<open>33.33333333333333%\<close>.
\<close>

theorem width_is_not_rounded:
  "\<exists>p' bar'. updateChecklistProgress (Some ''B'') checklist_page = Normal p'
     \<and> querySelector_progress_bar (cards p' ! 1) = Some bar'
     \<and> textContent bar' = Percent (Fin 33)
     \<and> style_width bar' = Percent (Fin (2345624805922133 / 70368744177664))
     \<and> style_width bar' \<noteq> Percent (Math_round (progress (cards checklist_page ! 1)))"
proof -
  from updateChecklistProgress_bar[OF checklist_page_lookup(2) example_bars(2)]
  obtain p' where p': "updateChecklistProgress (Some ''B'') checklist_page = Normal p'"
    "querySelector_progress_bar (cards p' ! 1)
       = Some (paint (progress card_B) (requiredProgress card_B) bar0)"
    by (auto simp: checklist_page_cards)
  have "style_width (paint (progress card_B) (requiredProgress card_B) bar0)
          = Percent (Fin (2345624805922133 / 70368744177664))"
    by (simp add: card_B_progress style_width_paint)
  moreover have "textContent (paint (progress card_B) (requiredProgress card_B) bar0)
          = Percent (Fin 33)"
    by (simp add: textContent_paint card_B_label)
  ultimately show ?thesis
    using p' by (simp add: checklist_page_cards card_B_label)
qed

text \<open>
  C3, amended: after every progress recomputation for a checklist card with a progress
  bar, the label text of the bar is set to the rounded overall percentage; the width of
  the bar is set to the overall percentage as computed, not rounded, when the card has
  at least one item.
\<close>

theorem label_rounded_width_unrounded:
  assumes "querySelector_card (tmpl cid) p = Inr i"
    and "querySelector_progress_bar (cards p ! i) = Some progressBar"
  shows "\<exists>p' bar'. updateChecklistProgress cid p = Normal p'
           \<and> querySelector_progress_bar (cards p' ! i) = Some bar'
           \<and> textContent bar' = Percent (Math_round (progress (cards p ! i)))
           \<and> (items (cards p ! i) \<noteq> [] \<longrightarrow> style_width bar' = Percent (progress (cards p ! i)))"
proof -
  from updateChecklistProgress_bar[OF assms]
  obtain p' where p': "updateChecklistProgress cid p = Normal p'"
    "querySelector_progress_bar (cards p' ! i)
       = Some (paint (progress (cards p ! i)) (requiredProgress (cards p ! i)) progressBar)"
    by blast
  have "style_width (paint (progress (cards p ! i)) (requiredProgress (cards p ! i)) progressBar)
          = Percent (progress (cards p ! i))"
    if "items (cards p ! i) \<noteq> []"
  proof -
    from progress_range[OF that] obtain r where "progress (cards p ! i) = Fin r" "0 \<le> r"
      by blast
    then show ?thesis by (simp add: style_width_paint)
  qed
  with p' show ?thesis by (simp add: textContent_paint)
qed

theorem label_rounded_width_unrounded_witness:
  "querySelector_card (tmpl (Some ''A'')) checklist_page = Inr 0
   \<and> querySelector_progress_bar (cards checklist_page ! 0) = Some bar0
   \<and> items (cards checklist_page ! 0) \<noteq> []
   \<and> (\<exists>p' bar'. updateChecklistProgress (Some ''A'') checklist_page = Normal p'
         \<and> querySelector_progress_bar (cards p' ! 0) = Some bar'
         \<and> textContent bar' = Percent (Fin 50)
         \<and> style_width bar' = Percent (Fin 50))"
proof -
  have its: "items (cards checklist_page ! 0) \<noteq> []"
    by (simp add: checklist_page_cards card_A_def)
  have "Math_round (progress (cards checklist_page ! 0)) = Fin 50"
    "progress (cards checklist_page ! 0) = Fin 50"
    by (simp_all add: checklist_page_cards card_A_progress floor_numeral_fraction)
  with label_rounded_width_unrounded[OF checklist_page_lookup(1) example_bars(1)] its
  show ?thesis by (simp add: checklist_page_lookup example_bars)
qed

text \<open>
  C4: for every checklist card with at least one required item and a progress bar, after
  progress recomputation the colour tier is success exactly when the required progress
  equals 100, warning exactly when it is at least 50 and below 100, and danger exactly
  when it is below 50, where the required progress is checked-required / required
  \<times> 100 in the arithmetic of the script.
\<close>

theorem tier_by_required_progress:
  assumes "querySelector_card (tmpl cid) p = Inr i"
    and "querySelector_progress_bar (cards p ! i) = Some progressBar"
    and "0 < totalRequired (cards p ! i)"
  shows "requiredProgress (cards p ! i)
           = js_mul (js_div (num (checkedRequired (cards p ! i))) (num (totalRequired (cards p ! i))))
               (Fin 100)
       \<and> (\<exists>p' bar'. updateChecklistProgress cid p = Normal p'
             \<and> querySelector_progress_bar (cards p' ! i) = Some bar'
             \<and> (tiers_shown bar' = [Success] \<longleftrightarrow> js_eq (requiredProgress (cards p ! i)) (Fin 100))
             \<and> (tiers_shown bar' = [Warning] \<longleftrightarrow>
                   js_ge (requiredProgress (cards p ! i)) (Fin 50)
                   \<and> js_lt (requiredProgress (cards p ! i)) (Fin 100))
             \<and> (tiers_shown bar' = [Danger] \<longleftrightarrow> js_lt (requiredProgress (cards p ! i)) (Fin 50)))"
proof -
  from updateChecklistProgress_bar[OF assms(1,2)]
  obtain p' where p': "updateChecklistProgress cid p = Normal p'"
    "querySelector_progress_bar (cards p' ! i)
       = Some (paint (progress (cards p ! i)) (requiredProgress (cards p ! i)) progressBar)"
    by blast
  obtain r where r: "requiredProgress (cards p ! i) = Fin r" "r \<le> 100"
    using requiredProgress_range by blast
  let ?rp = "requiredProgress (cards p ! i)"
  let ?bar = "paint (progress (cards p ! i)) ?rp progressBar"
  have eq: "?rp = js_mul (js_div (num (checkedRequired (cards p ! i)))
                            (num (totalRequired (cards p ! i)))) (Fin 100)"
    using assms(3) by (simp add: requiredProgress_def)
  have S: "tiers_shown ?bar = [Success] \<longleftrightarrow> js_eq ?rp (Fin 100)"
    by (simp add: tiers_shown_paint)
  have W: "tiers_shown ?bar = [Warning] \<longleftrightarrow> js_ge ?rp (Fin 50) \<and> js_lt ?rp (Fin 100)"
    unfolding tiers_shown_paint r(1) using tier_of_range(1)[OF r(2)] by auto
  have D: "tiers_shown ?bar = [Danger] \<longleftrightarrow> js_lt ?rp (Fin 50)"
    unfolding tiers_shown_paint r(1) using tier_of_range(2)[OF r(2)] by auto
  from p' S W D have "\<exists>p' bar'. updateChecklistProgress cid p = Normal p'
      \<and> querySelector_progress_bar (cards p' ! i) = Some bar'
      \<and> (tiers_shown bar' = [Success] \<longleftrightarrow> js_eq ?rp (Fin 100))
      \<and> (tiers_shown bar' = [Warning] \<longleftrightarrow> js_ge ?rp (Fin 50) \<and> js_lt ?rp (Fin 100))
      \<and> (tiers_shown bar' = [Danger] \<longleftrightarrow> js_lt ?rp (Fin 50))"
    by blast
  with eq show ?thesis by (rule conjI)
qed

theorem tier_by_required_progress_witness:
  "querySelector_card (tmpl (Some ''A'')) checklist_page = Inr 0
   \<and> querySelector_progress_bar (cards checklist_page ! 0) = Some bar0
   \<and> 0 < totalRequired (cards checklist_page ! 0)
   \<and> requiredProgress (cards checklist_page ! 0) = Fin 50
   \<and> (\<exists>p' bar'. updateChecklistProgress (Some ''A'') checklist_page = Normal p'
         \<and> querySelector_progress_bar (cards p' ! 0) = Some bar'
         \<and> tiers_shown bar' = [Warning])"
proof -
  have req: "0 < totalRequired (cards checklist_page ! 0)"
    by (simp add: checklist_page_cards card_A_counts)
  have rp: "requiredProgress (cards checklist_page ! 0) = Fin 50"
    by (simp add: checklist_page_cards card_A_progress)
  from tier_by_required_progress[OF checklist_page_lookup(1) example_bars(1) req]
  obtain p' bar' where u: "updateChecklistProgress (Some ''A'') checklist_page = Normal p'"
      "querySelector_progress_bar (cards p' ! 0) = Some bar'"
    and w: "tiers_shown bar' = [Warning] \<longleftrightarrow>
              js_ge (requiredProgress (cards checklist_page ! 0)) (Fin 50)
              \<and> js_lt (requiredProgress (cards checklist_page ! 0)) (Fin 100)"
    by blast
  from w have "tiers_shown bar' = [Warning]" by (simp add: rp)
  with u checklist_page_lookup(1) example_bars(1) req rp show ?thesis by blast
qed

text \<open>
  In exact terms, for a card with at most \<open>2^32\<close> required items: the tier is success
  when every required item is checked, warning when at least half of them but not all
  are, and danger when fewer than half are.
\<close>

lemma tier_by_counts:
  assumes "querySelector_card (tmpl cid) p = Inr i"
    and "querySelector_progress_bar (cards p ! i) = Some progressBar"
    and "0 < totalRequired (cards p ! i)" and "totalRequired (cards p ! i) \<le> 2 ^ 32"
  shows "\<exists>p' bar'. updateChecklistProgress cid p = Normal p'
           \<and> querySelector_progress_bar (cards p' ! i) = Some bar'
           \<and> tiers_shown bar'
               = (if checkedRequired (cards p ! i) = totalRequired (cards p ! i) then [Success]
                  else if totalRequired (cards p ! i) \<le> 2 * checkedRequired (cards p ! i)
                  then [Warning] else [Danger])"
proof -
  have le: "checkedRequired (cards p ! i) \<le> totalRequired (cards p ! i)"
    by (simp add: checkedRequired_def totalRequired_def)
  have rp: "requiredProgress (cards p ! i)
      = js_mul (js_div (num (checkedRequired (cards p ! i))) (num (totalRequired (cards p ! i))))
          (Fin 100)"
    using assms(3) by (simp add: requiredProgress_def)
  have "tiers_shown (paint (progress (cards p ! i)) (requiredProgress (cards p ! i)) progressBar)
      = (if checkedRequired (cards p ! i) = totalRequired (cards p ! i) then [Success]
         else if totalRequired (cards p ! i) \<le> 2 * checkedRequired (cards p ! i)
         then [Warning] else [Danger])"
    unfolding tiers_shown_paint rp
    by (simp only: percentage_100_iff[OF assms(3) le assms(4)]
        percentage_50_iff[OF assms(3) le assms(4)])
  with updateChecklistProgress_bar[OF assms(1,2)] show ?thesis by auto
qed

text \<open>
  C5: for every checklist card with zero required items and a progress bar, after
  progress recomputation the required progress is 100 and the colour tier is success,
  however many of the other items are checked.
\<close>

theorem no_required_items_success:
  assumes "querySelector_card (tmpl cid) p = Inr i"
    and "querySelector_progress_bar (cards p ! i) = Some progressBar"
    and "totalRequired (cards p ! i) = 0"
  shows "requiredProgress (cards p ! i) = Fin 100
       \<and> (\<exists>p' bar'. updateChecklistProgress cid p = Normal p'
             \<and> querySelector_progress_bar (cards p' ! i) = Some bar'
             \<and> tiers_shown bar' = [Success])"
proof -
  have rp: "requiredProgress (cards p ! i) = Fin 100"
    using assms(3) by (simp add: requiredProgress_def)
  from updateChecklistProgress_bar[OF assms(1,2)] show ?thesis
    by (auto simp: rp tiers_shown_paint)
qed

theorem no_required_items_success_witness:
  "querySelector_card (tmpl (Some ''B'')) checklist_page = Inr 1
   \<and> querySelector_progress_bar (cards checklist_page ! 1) = Some bar0
   \<and> totalRequired (cards checklist_page ! 1) = 0
   \<and> checkedItems (cards checklist_page ! 1) = 1
   \<and> requiredProgress (cards checklist_page ! 1) = Fin 100
   \<and> (\<exists>p' bar'. updateChecklistProgress (Some ''B'') checklist_page = Normal p'
         \<and> querySelector_progress_bar (cards p' ! 1) = Some bar'
         \<and> tiers_shown bar' = [Success])"
proof -
  have req: "totalRequired (cards checklist_page ! 1) = 0"
    "checkedItems (cards checklist_page ! 1) = 1"
    by (simp_all add: checklist_page_cards card_B_counts)
  from no_required_items_success[OF checklist_page_lookup(2) example_bars(2) req(1)]
    checklist_page_lookup(2) example_bars(2) req
  show ?thesis by blast
qed

text \<open>The card of 40 items with 23 checked.\<close>

lemma tie_page_lookup: "querySelector_card (tmpl (Some ''T'')) tie_page = Inr 0"
  by (simp add: querySelector_card_plain plain_identifier_def tmpl_def tie_page_def card_T_def)

lemma card_T_counts:
  "length (items card_T) = 40" "length (filter checked (items card_T)) = 23"
  by (simp_all add: card_T_def)

lemma card_T_label: "Math_round (progress card_T) = Fin 57"
  using double_precision_tie(2)
  by (simp add: progress_def checkedItems_def totalItems_def card_T_counts)

text \<open>
  C6, as the claim states it, fails: with 23 of 40 items checked the percentage is 57.5
  exactly, which rounds to 58; the script computes 57.49999999999999 in double precision
  and the label becomes \<^verbatim>\<open>57%\<close>.
\<close>

theorem tie_label_is_one_below:
  "querySelector_card (tmpl (Some ''T'')) tie_page = Inr 0
   \<and> length (items (cards tie_page ! 0)) = 40
   \<and> length (filter checked (items (cards tie_page ! 0))) = 23
   \<and> exact_rounded_percentage 23 40 = 58
   \<and> (\<exists>p' bar'. updateChecklistProgress (Some ''T'') tie_page = Normal p'
         \<and> querySelector_progress_bar (cards p' ! 0) = Some bar'
         \<and> textContent bar' = Percent (Fin 57))"
proof -
  have c: "cards tie_page ! 0 = card_T" by (simp add: tie_page_def)
  have bar: "querySelector_progress_bar (cards tie_page ! 0) = Some bar0"
    by (simp add: c querySelector_progress_bar_def card_T_def)
  from updateChecklistProgress_bar[OF tie_page_lookup bar]
  obtain p' where p': "updateChecklistProgress (Some ''T'') tie_page = Normal p'"
    "querySelector_progress_bar (cards p' ! 0)
       = Some (paint (progress card_T) (requiredProgress card_T) bar0)"
    unfolding c by blast
  have "textContent (paint (progress card_T) (requiredProgress card_T) bar0) = Percent (Fin 57)"
    by (simp add: textContent_paint card_T_label)
  with p' have "\<exists>p' bar'. updateChecklistProgress (Some ''T'') tie_page = Normal p'
      \<and> querySelector_progress_bar (cards p' ! 0) = Some bar'
      \<and> textContent bar' = Percent (Fin 57)" by blast
  moreover have "exact_rounded_percentage 23 40 = 58"
    using double_precision_tie(3) by (simp add: exact_rounded_percentage_def)
  ultimately show ?thesis using tie_page_lookup card_T_counts by (simp add: c)
qed

text \<open>
  C6, amended: for every checklist card with at least one item (and at
  most \<open>2^32\<close>, the bound of a node list) and a progress bar, the label of the bar after
  recomputation is a whole number from 0 to 100. It is the exactly rounded percentage
  \<open>\<lfloor>checked / total \<times> 100 + 1/2\<rfloor>\<close>, with checked the number of checked items and total
  the number of items of the card, except when the percentage lies exactly halfway
  between two whole numbers: then it is that number or the one below.
\<close>

theorem label_near_exact_percentage:
  assumes "querySelector_card (tmpl cid) p = Inr i"
    and "querySelector_progress_bar (cards p ! i) = Some progressBar"
    and "0 < length (items (cards p ! i))"
    and "length (items (cards p ! i)) \<le> 2 ^ 32"
  shows "\<exists>p' bar' k. updateChecklistProgress cid p = Normal p'
           \<and> querySelector_progress_bar (cards p' ! i) = Some bar'
           \<and> textContent bar' = Percent (Fin (of_int k))
           \<and> 0 \<le> k \<and> k \<le> 100
           \<and> (if percentage_tie (length (filter checked (items (cards p ! i))))
                                 (length (items (cards p ! i)))
               then k = exact_rounded_percentage (length (filter checked (items (cards p ! i))))
                                                 (length (items (cards p ! i)))
                  \<or> k = exact_rounded_percentage (length (filter checked (items (cards p ! i))))
                                                 (length (items (cards p ! i))) - 1
               else k = exact_rounded_percentage (length (filter checked (items (cards p ! i))))
                                                 (length (items (cards p ! i))))"
proof -
  define c where "c = length (filter checked (items (cards p ! i)))"
  define t where "t = length (items (cards p ! i))"
  have ct: "c \<le> t" by (simp add: c_def t_def)
  have t: "0 < t" "t \<le> 2 ^ 32" using assms(3,4) by (simp_all add: t_def)
  have pr: "progress (cards p ! i) = js_mul (js_div (num c) (num t)) (Fin 100)"
    by (simp add: progress_def checkedItems_def totalItems_def c_def t_def)
  from updateChecklistProgress_bar[OF assms(1,2)]
  obtain p' where p': "updateChecklistProgress cid p = Normal p'"
    "querySelector_progress_bar (cards p' ! i)
       = Some (paint (progress (cards p ! i)) (requiredProgress (cards p ! i)) progressBar)"
    by blast
  from rounded_percentage_near[OF t(1) ct t(2)]
  obtain k where k: "Math_round (progress (cards p ! i)) = Fin (of_int k)"
    "if percentage_tie c t
     then k = exact_rounded_percentage c t \<or> k = exact_rounded_percentage c t - 1
     else k = exact_rounded_percentage c t"
    unfolding pr by blast
  from percentage_range[OF t(1) ct]
  obtain r where r: "progress (cards p ! i) = Fin r" "0 \<le> r" "r \<le> 100"
    unfolding pr by blast
  have "0 \<le> \<lfloor>r + 1 / 2\<rfloor>" using r(2) by simp
  moreover have "\<lfloor>r + 1 / 2\<rfloor> \<le> 100" using r(3) by (simp add: floor_le_iff)
  moreover have "k = \<lfloor>r + 1 / 2\<rfloor>" using k(1) by (simp add: r(1))
  ultimately have rng: "0 \<le> k" "k \<le> 100" by simp_all
  have "textContent (paint (progress (cards p ! i)) (requiredProgress (cards p ! i)) progressBar)
      = Percent (Fin (of_int k))"
    by (simp add: textContent_paint k(1))
  with p' rng k(2) show ?thesis unfolding c_def t_def by blast
qed

theorem label_near_exact_percentage_witness:
  "querySelector_card (tmpl (Some ''B'')) checklist_page = Inr 1
   \<and> querySelector_progress_bar (cards checklist_page ! 1) = Some bar0
   \<and> length (filter checked (items (cards checklist_page ! 1))) = 1
   \<and> length (items (cards checklist_page ! 1)) = 3
   \<and> exact_rounded_percentage 1 3 = 33
   \<and> \<not> percentage_tie 1 3
   \<and> (\<exists>p' bar'. updateChecklistProgress (Some ''B'') checklist_page = Normal p'
         \<and> querySelector_progress_bar (cards p' ! 1) = Some bar'
         \<and> textContent bar' = Percent (Fin 33))"
proof -
  have n: "length (filter checked (items (cards checklist_page ! 1))) = 1"
    "length (items (cards checklist_page ! 1)) = 3"
    by (simp_all add: checklist_page_cards card_B_def)
  have pos: "0 < length (items (cards checklist_page ! 1))"
    and le: "length (items (cards checklist_page ! 1)) \<le> 2 ^ 32"
    unfolding n by simp_all
  have e: "exact_rounded_percentage 1 3 = 33"
    by (simp add: exact_rounded_percentage_def floor_numeral_fraction)
  have nt: "\<not> percentage_tie 1 3"
    by (simp add: percentage_tie_def exact_rounded_percentage_def floor_numeral_fraction)
  from label_near_exact_percentage[OF checklist_page_lookup(2) example_bars(2) pos le]
  obtain p' bar' k where "updateChecklistProgress (Some ''B'') checklist_page = Normal p'"
    "querySelector_progress_bar (cards p' ! 1) = Some bar'"
    "textContent bar' = Percent (Fin (of_int k))"
    "if percentage_tie 1 3
     then k = exact_rounded_percentage 1 3 \<or> k = exact_rounded_percentage 1 3 - 1
     else k = exact_rounded_percentage 1 3"
    unfolding n by blast
  then have "\<exists>p' bar'. updateChecklistProgress (Some ''B'') checklist_page = Normal p'
      \<and> querySelector_progress_bar (cards p' ! 1) = Some bar'
      \<and> textContent bar' = Percent (Fin 33)"
    using e nt by auto
  with checklist_page_lookup(2) example_bars(2) n e nt show ?thesis by blast
qed

text \<open>
  C8: after every progress recomputation for a card whose progress bar exists, exactly
  one of the three colour tier classes (success, warning, danger) is on the progress bar,
  whatever classes the bar carried before.
\<close>

theorem exactly_one_tier_class:
  assumes "querySelector_card (tmpl cid) p = Inr i"
    and "querySelector_progress_bar (cards p ! i) = Some progressBar"
  shows "\<exists>p' bar'. updateChecklistProgress cid p = Normal p'
           \<and> querySelector_progress_bar (cards p' ! i) = Some bar'
           \<and> (\<exists>t. tiers_shown bar' = [t])"
  using updateChecklistProgress_bar[OF assms] by (auto simp: tiers_shown_paint)

theorem exactly_one_tier_class_witness:
  "querySelector_card (tmpl (Some ''A'')) checklist_page = Inr 0
   \<and> querySelector_progress_bar (cards checklist_page ! 0) = Some bar0
   \<and> tiers_shown bar0 = [Danger]
   \<and> (\<exists>p' bar'. updateChecklistProgress (Some ''A'') checklist_page = Normal p'
         \<and> querySelector_progress_bar (cards p' ! 0) = Some bar'
         \<and> (\<exists>t. tiers_shown bar' = [t]))"
proof -
  have "tiers_shown bar0 = [Danger]" by (simp add: tiers_shown_def bar0_def)
  with exactly_one_tier_class[OF checklist_page_lookup(1) example_bars(1)]
    checklist_page_lookup(1) example_bars(1)
  show ?thesis by blast
qed

text \<open>
  C10: for every checklist card that holds no progress-bar element,
  \<^verbatim>\<open>updateChecklistProgress\<close> changes nothing of the page and raises no exception: the
  counts are computed and dropped.
\<close>

theorem no_progress_bar_no_change:
  assumes "querySelector_card (tmpl cid) p = Inr i"
    and "querySelector_progress_bar (cards p ! i) = None"
  shows "updateChecklistProgress cid p = Normal p"
  using assms by (simp add: updateChecklistProgress_def)

theorem no_progress_bar_no_change_witness:
  "querySelector_card (tmpl (Some ''C'')) checklist_page = Inr 2
   \<and> querySelector_progress_bar (cards checklist_page ! 2) = None
   \<and> updateChecklistProgress (Some ''C'') checklist_page = Normal checklist_page"
  using no_progress_bar_no_change[OF checklist_page_lookup(3) example_bars(3)]
    checklist_page_lookup(3) example_bars(3)
  by blast

subsection \<open>News\<close>

lemma news_page_closest:
  "closest_news_item news_page 0
     = Some (1, \<lparr>classList = [''news-item''], textContent = Plain ''Rates'',
                  style_width = Plain []\<rparr>)"
  by (simp add: closest_news_item_def news_page_def)

lemma ok_200: "ok \<lparr>status = 200, body = b\<rparr>"
  by (simp add: ok_def)

lemma not_ok_500: "\<not> ok \<lparr>status = 500, body = b\<rparr>"
  by (simp add: ok_def)

lemma show_nat_digit: "n < 10 \<Longrightarrow> show_nat n = [''0123456789'' ! n]"
  by (simp add: show_nat.simps)

text \<open>
  C1, as the claim states it, fails: the element the handler removes is the button
  (\<^verbatim>\<open>this.remove()\<close>), not the news item. After a POST answered with status 200 the
  news item is still in the document, with the class \<^verbatim>\<open>opacity-50\<close> added.
\<close>

theorem news_item_stays_in_document:
  "ok \<lparr>status = 200, body = NotJson\<rparr>
   \<and> news_items (markNewsRead_resume 0 (Fulfilled \<lparr>status = 200, body = NotJson\<rparr>) news_page) 1
       = Some \<lparr>classList = [''news-item'', ''opacity-50''], textContent = Plain ''Rates'',
                style_width = Plain []\<rparr>
   \<and> news_items (markNewsRead_resume 0 (Fulfilled \<lparr>status = 200, body = NotJson\<rparr>) news_page) 1
       \<noteq> None"
  by (simp add: markNewsRead_resume_def ok_200 news_page_closest updateUnreadCount_def fetch_def
      classList_add_def)

text \<open>
  C1, amended: when the mark-read POST for a news item returns an HTTP success status and
  the button is inside a news item element, the handler fades that element (it adds the
  class \<^verbatim>\<open>opacity-50\<close>; the element stays in the document), removes the mark-read
  button itself, and then triggers an unread-count refresh.
\<close>

theorem mark_read_success:
  assumes "ok r" and "closest_news_item p b = Some (i, el)"
  shows "news_items (markNewsRead_resume b (Fulfilled r) p) i
           = Some (el\<lparr>classList := classList_add ''opacity-50'' (classList el)\<rparr>)
       \<and> buttons (markNewsRead_resume b (Fulfilled r) p) b = None
       \<and> requests (markNewsRead_resume b (Fulfilled r) p)
           = requests p @ [\<lparr>http_method = ''GET'', url = ''/api/news?unread_only=true''\<rparr>]
       \<and> console (markNewsRead_resume b (Fulfilled r) p) = console p"
  using assms by (simp add: markNewsRead_resume_def updateUnreadCount_def fetch_def)

theorem mark_read_success_witness:
  "ok \<lparr>status = 200, body = NotJson\<rparr>
   \<and> closest_news_item news_page 0
       = Some (1, \<lparr>classList = [''news-item''], textContent = Plain ''Rates'',
                    style_width = Plain []\<rparr>)
   \<and> news_items (markNewsRead_resume 0 (Fulfilled \<lparr>status = 200, body = NotJson\<rparr>) news_page) 1
       = Some \<lparr>classList = [''news-item'', ''opacity-50''], textContent = Plain ''Rates'',
                style_width = Plain []\<rparr>
   \<and> buttons (markNewsRead_resume 0 (Fulfilled \<lparr>status = 200, body = NotJson\<rparr>) news_page) 0 = None
   \<and> requests (markNewsRead_resume 0 (Fulfilled \<lparr>status = 200, body = NotJson\<rparr>) news_page)
       = [\<lparr>http_method = ''GET'', url = ''/api/news?unread_only=true''\<rparr>]"
proof -
  have "requests news_page = []" by (simp add: news_page_def)
  with mark_read_success[OF ok_200 news_page_closest, of NotJson] ok_200[of NotJson]
    news_page_closest
  show ?thesis by (simp add: classList_add_def)
qed

text \<open>
  C2, as the claim states it, fails: a response with a status outside 200 to 299 raises
  nothing, so nothing is caught and nothing is logged. After a 500 the console is as it
  was, for the mark-read request and for the unread-count request.
\<close>

theorem failed_status_is_not_logged:
  "failure (Fulfilled \<lparr>status = 500, body = NotJson\<rparr>)
   \<and> console news_page = []
   \<and> console (markNewsRead_resume 0 (Fulfilled \<lparr>status = 500, body = NotJson\<rparr>) news_page) = []
   \<and> console (updateUnreadCount_resume (Fulfilled \<lparr>status = 500, body = NotJson\<rparr>) news_page) = []"
  by (simp add: failure_def markNewsRead_resume_def updateUnreadCount_resume_def not_ok_500
      news_page_def)

text \<open>
  C2, amended: for every network failure of the mark-read and the unread-count request,
  the DOM is left unchanged and no further request is issued (no retry, no user-visible
  error). A rejected promise is caught and logged once to the diagnostic channel; a
  response with a status outside 200 to 299 is not logged.
\<close>

theorem network_failure_leaves_page:
  assumes "failure res"
  shows "(markNewsRead_resume b res p)\<lparr>console := console p\<rparr> = p
       \<and> console (markNewsRead_resume b res p)
           = (case res of
                Rejected e \<Rightarrow> console p @ [(''Error marking news as read:'', e)]
              | Fulfilled r \<Rightarrow> console p)
       \<and> (updateUnreadCount_resume res p)\<lparr>console := console p\<rparr> = p
       \<and> console (updateUnreadCount_resume res p)
           = (case res of
                Rejected e \<Rightarrow> console p @ [(''Error updating news count:'', e)]
              | Fulfilled r \<Rightarrow> console p)"
  using assms
  by (cases res)
    (simp_all add: failure_def markNewsRead_resume_def updateUnreadCount_resume_def
      console_error_def)

theorem network_failure_leaves_page_witness:
  "failure (Rejected NetworkError)
   \<and> (markNewsRead_resume 0 (Rejected NetworkError) news_page)\<lparr>console := []\<rparr> = news_page
   \<and> console (markNewsRead_resume 0 (Rejected NetworkError) news_page)
       = [(''Error marking news as read:'', NetworkError)]
   \<and> (updateUnreadCount_resume (Rejected NetworkError) news_page)\<lparr>console := []\<rparr> = news_page
   \<and> console (updateUnreadCount_resume (Rejected NetworkError) news_page)
       = [(''Error updating news count:'', NetworkError)]"
proof -
  have f: "failure (Rejected NetworkError)" by (simp add: failure_def)
  have c: "console news_page = []" by (simp add: news_page_def)
  from network_failure_leaves_page[OF f, where b = 0 and p = news_page] f show ?thesis
    unfolding c by simp
qed

text \<open>
  C9, as the claim states it, fails: with an empty news array the branch that hides the
  badge does not write its text. A badge that reads \<^verbatim>\<open>3\<close> still reads \<^verbatim>\<open>3\<close>,
  hidden, after a refresh that found no unread entry.
\<close>

theorem empty_news_keeps_badge_text:
  "\<exists>badge'. news_badge (updateUnreadCount_resume (Fulfilled \<lparr>status = 200, body = News []\<rparr>)
                 news_page) = Some badge'
     \<and> textContent badge' = Plain ''3''
     \<and> textContent badge' \<noteq> Plain (show_nat (length ([] :: string list)))
     \<and> ''d-none'' \<in> set (classList badge')"
  by (simp add: updateUnreadCount_resume_def show_unread_def ok_200 news_page_def
      classList_add_def show_nat_digit)

text \<open>
  C9, amended: on a successful unread-count refresh whose response body contains a news
  array, with the badge element present, the badge is made visible if and only if the
  length of the array is greater than 0 (hidden when the array is empty); its text is set
  to the length of the array when that is greater than 0, and left as it was when the
  array is empty.
\<close>

theorem badge_shows_unread_count:
  assumes "ok r" and "body r = News ns" and "news_badge p = Some badge"
  shows "\<exists>badge'. news_badge (updateUnreadCount_resume (Fulfilled r) p) = Some badge'
           \<and> (''d-none'' \<notin> set (classList badge') \<longleftrightarrow> 0 < length ns)
           \<and> textContent badge'
               = (if 0 < length ns then Plain (show_nat (length ns)) else textContent badge)"
  using assms
  by (simp add: updateUnreadCount_resume_def show_unread_def classList_add_def
      classList_remove_def)

theorem badge_shows_unread_count_witness:
  "ok \<lparr>status = 200, body = News [''rates'', ''jobs'']\<rparr>
   \<and> news_badge (news_page\<lparr>news_badge := Some \<lparr>classList = [''badge'', ''d-none''],
        textContent = Plain ''0'', style_width = Plain []\<rparr>\<rparr>)
       = Some \<lparr>classList = [''badge'', ''d-none''], textContent = Plain ''0'',
                style_width = Plain []\<rparr>
   \<and> (\<exists>badge'. news_badge (updateUnreadCount_resume
          (Fulfilled \<lparr>status = 200, body = News [''rates'', ''jobs'']\<rparr>)
          (news_page\<lparr>news_badge := Some \<lparr>classList = [''badge'', ''d-none''],
             textContent = Plain ''0'', style_width = Plain []\<rparr>\<rparr>)) = Some badge'
        \<and> ''d-none'' \<notin> set (classList badge')
        \<and> textContent badge' = Plain ''2'')"
proof -
  let ?r = "\<lparr>status = 200, body = News [''rates'', ''jobs'']\<rparr>"
  let ?badge = "\<lparr>classList = [''badge'', ''d-none''], textContent = Plain ''0'',
                  style_width = Plain []\<rparr>"
  let ?p = "news_page\<lparr>news_badge := Some ?badge\<rparr>"
  have b: "body ?r = News [''rates'', ''jobs'']" by simp
  have n: "news_badge ?p = Some ?badge" by simp
  have s: "show_nat (length [''rates'', ''jobs'']) = ''2''" by (simp add: show_nat_digit)
  from badge_shows_unread_count[OF ok_200 b n]
  obtain badge' where "news_badge (updateUnreadCount_resume (Fulfilled ?r) ?p) = Some badge'"
    "''d-none'' \<notin> set (classList badge')" "textContent badge' = Plain ''2''"
    unfolding s by auto
  with ok_200 n show ?thesis by blast
qed

subsection \<open>Checklist persistence\<close>

text \<open>
  \<^verbatim>\<open>updateChecklistProgress\<close> writes to progress bars only: storage, identifiers and
  items are as before, whether it returns or raises.
\<close>

lemma updateChecklistProgress_frame:
  "localStorage (page_of (updateChecklistProgress cid p)) = localStorage p
   \<and> map checklistId (cards (page_of (updateChecklistProgress cid p))) = map checklistId (cards p)
   \<and> map items (cards (page_of (updateChecklistProgress cid p))) = map items (cards p)"
proof (cases "querySelector_card (tmpl cid) p")
  case (Inl e)
  then show ?thesis by (simp add: updateChecklistProgress_def)
next
  case (Inr i)
  then have "i < length (cards p)" by (simp add: querySelector_card_InrD)
  with Inr show ?thesis
    by (auto simp: updateChecklistProgress_def Let_def map_update list_update_same_conv
        split: option.splits)
qed

text \<open>It returns when the selector finds a card.\<close>

lemma updateChecklistProgress_Normal:
  "querySelector_card (tmpl cid) p = Inr i \<Longrightarrow> \<exists>p'. updateChecklistProgress cid p = Normal p'"
  by (simp add: updateChecklistProgress_def Let_def split: option.splits)

lemma same_ids:
  assumes "map checklistId (cards p') = map checklistId (cards p)"
  shows "length (cards p') = length (cards p)"
    and "k < length (cards p) \<Longrightarrow> checklistId (cards p' ! k) = checklistId (cards p ! k)"
proof -
  show len: "length (cards p') = length (cards p)" using assms by (metis length_map)
  show "checklistId (cards p' ! k) = checklistId (cards p ! k)" if "k < length (cards p)"
    using assms that len by (metis nth_map)
qed

lemma resolves_ids:
  assumes "map checklistId (cards p') = map checklistId (cards p)" and "k < length (cards p)"
  shows "resolves p' (cards p' ! k) = resolves p (cards p ! k)"
  by (simp add: resolves_def same_ids(2)[OF assms] querySelector_card_ids[OF assms(1)])

text \<open>
  One round of the restoration loop, on card \<open>j\<close>: the items of the card are restored
  from storage before the progress recomputation, so also when that raises; storage,
  identifiers and the items of the other cards are as before.
\<close>

lemma restore_card_frame:
  assumes "j < length (cards p)"
  shows "localStorage (page_of (restore_card j p)) = localStorage p"
    and "map checklistId (cards (page_of (restore_card j p))) = map checklistId (cards p)"
    and "map items (cards (page_of (restore_card j p))) = (map items (cards p))[j := restored p j]"
proof -
  define c where "c = cards p ! j"
  define p1 where "p1 = p\<lparr>cards := (cards p)
      [j := c\<lparr>items := map (restore_item (checklistId c) (localStorage p)) (items c)\<rparr>]\<rparr>"
  have rc: "restore_card j p = updateChecklistProgress (checklistId c) p1"
    by (simp add: restore_card_def Let_def c_def p1_def)
  note f = updateChecklistProgress_frame[of "checklistId c" p1]
  show "localStorage (page_of (restore_card j p)) = localStorage p"
    using f by (simp add: rc p1_def)
  have "map checklistId (cards p1) = map checklistId (cards p)"
    using assms by (simp add: p1_def map_update c_def list_update_same_conv)
  then show "map checklistId (cards (page_of (restore_card j p))) = map checklistId (cards p)"
    using f by (simp add: rc)
  have "map items (cards p1) = (map items (cards p))[j := restored p j]"
    by (simp add: p1_def map_update restored_def c_def)
  then show "map items (cards (page_of (restore_card j p)))
      = (map items (cards p))[j := restored p j]"
    using f by (simp add: rc)
qed

lemma restore_card_items:
  assumes "j < length (cards p)" and "k < length (cards p)"
  shows "items (cards (page_of (restore_card j p)) ! k)
           = (if k = j then restored p j else items (cards p ! k))"
proof -
  let ?p' = "page_of (restore_card j p)"
  have len: "length (cards ?p') = length (cards p)"
    by (rule same_ids(1)[OF restore_card_frame(2)[OF assms(1)]])
  have "items (cards ?p' ! k) = map items (cards ?p') ! k" using assms(2) len by simp
  also have "\<dots> = (map items (cards p))[j := restored p j] ! k"
    by (simp only: restore_card_frame(3)[OF assms(1)])
  finally show ?thesis using assms(2) by (simp add: nth_list_update)
qed

lemma restore_card_Normal:
  assumes "j < length (cards p)" and "resolves p (cards p ! j)"
  shows "\<exists>p'. restore_card j p = Normal p'"
proof -
  define c where "c = cards p ! j"
  define p1 where "p1 = p\<lparr>cards := (cards p)
      [j := c\<lparr>items := map (restore_item (checklistId c) (localStorage p)) (items c)\<rparr>]\<rparr>"
  have rc: "restore_card j p = updateChecklistProgress (checklistId c) p1"
    by (simp add: restore_card_def Let_def c_def p1_def)
  have "map checklistId (cards p1) = map checklistId (cards p)"
    using assms(1) by (simp add: p1_def map_update c_def list_update_same_conv)
  then have "querySelector_card (tmpl (checklistId c)) p1
      = querySelector_card (tmpl (checklistId c)) p"
    by (rule querySelector_card_ids)
  moreover obtain i where "querySelector_card (tmpl (checklistId c)) p = Inr i"
    using assms(2) by (auto simp: resolves_def c_def split: sum.splits)
  ultimately show ?thesis using updateChecklistProgress_Normal[of "checklistId c" p1 i]
    by (simp add: rc)
qed

text \<open>
  The rounds of the loop over the cards \<open>js\<close>, up to its end or to the exception that
  ends it: storage and identifiers are as before, and so are the items of the cards that
  are not among \<open>js\<close>.
\<close>

lemma restore_cards_frame:
  assumes "\<forall>j \<in> set js. j < length (cards p)"
  shows "localStorage (page_of (restore_cards js p)) = localStorage p
       \<and> map checklistId (cards (page_of (restore_cards js p))) = map checklistId (cards p)
       \<and> (\<forall>k < length (cards p). k \<notin> set js
            \<longrightarrow> items (cards (page_of (restore_cards js p)) ! k) = items (cards p ! k))"
  using assms
proof (induction js arbitrary: p)
  case Nil
  then show ?case by simp
next
  case (Cons j js)
  from Cons.prems have j: "j < length (cards p)" by simp
  note f = restore_card_frame[OF j]
  show ?case
  proof (cases "restore_card j p")
    case (Throw e p1)
    then have p1: "page_of (restore_card j p) = p1" by simp
    have "page_of (restore_cards (j # js) p) = p1" by (simp add: Throw)
    then show ?thesis using f restore_card_items[OF j] by (simp add: p1)
  next
    case (Normal p1)
    then have p1: "page_of (restore_card j p) = p1" by simp
    have len: "length (cards p1) = length (cards p)"
      using same_ids(1)[OF f(2)] by (simp add: p1)
    have "\<forall>j \<in> set js. j < length (cards p1)" using Cons.prems len by simp
    from Cons.IH[OF this]
    have ih: "localStorage (page_of (restore_cards js p1)) = localStorage p1"
      "map checklistId (cards (page_of (restore_cards js p1))) = map checklistId (cards p1)"
      "\<forall>k < length (cards p1). k \<notin> set js
          \<longrightarrow> items (cards (page_of (restore_cards js p1)) ! k) = items (cards p1 ! k)"
      by simp_all
    have "items (cards (page_of (restore_cards js p1)) ! k) = items (cards p ! k)"
      if "k < length (cards p)" and "k \<notin> set (j # js)" for k
    proof -
      have "items (cards (page_of (restore_cards js p1)) ! k) = items (cards p1 ! k)"
        using ih(3) that len by simp
      also have "\<dots> = items (cards p ! k)"
        using restore_card_items[OF j that(1)] that(2) by (simp add: p1)
      finally show ?thesis .
    qed
    then show ?thesis using ih(1,2) f(1,2) by (simp add: Normal)
  qed
qed

text \<open>
  The loop reaches card \<open>ci\<close> when the cards it visits before resolve, and restores the
  items of that card from storage; whatever happens after leaves them so.
\<close>

lemma restore_cards_reaches:
  assumes "\<forall>j \<in> set pre. j < length (cards p) \<and> j \<noteq> ci \<and> resolves p (cards p ! j)"
    and "ci < length (cards p)"
    and "\<forall>j \<in> set post. j < length (cards p) \<and> j \<noteq> ci"
  shows "items (cards (page_of (restore_cards (pre @ ci # post) p)) ! ci) = restored p ci"
  using assms
proof (induction pre arbitrary: p)
  case Nil
  note f = restore_card_frame[OF Nil.prems(2)]
  have it: "items (cards (page_of (restore_card ci p)) ! ci) = restored p ci"
    using restore_card_items[OF Nil.prems(2) Nil.prems(2)] by simp
  show ?case
  proof (cases "restore_card ci p")
    case (Throw e p1)
    then show ?thesis using it by simp
  next
    case (Normal p1)
    then have p1: "page_of (restore_card ci p) = p1" by simp
    have len: "length (cards p1) = length (cards p)"
      using same_ids(1)[OF f(2)] by (simp add: p1)
    have "\<forall>j \<in> set post. j < length (cards p1)" using Nil.prems(3) len by simp
    from restore_cards_frame[OF this]
    have "\<forall>k < length (cards p1). k \<notin> set post
        \<longrightarrow> items (cards (page_of (restore_cards post p1)) ! k) = items (cards p1 ! k)"
      by simp
    moreover have "ci \<notin> set post" using Nil.prems(3) by auto
    ultimately have "items (cards (page_of (restore_cards post p1)) ! ci) = items (cards p1 ! ci)"
      using Nil.prems(2) len by simp
    then show ?thesis using it by (simp add: Normal p1)
  qed
next
  case (Cons j pre)
  from Cons.prems(1) have j: "j < length (cards p)" "j \<noteq> ci" "resolves p (cards p ! j)"
    by simp_all
  note f = restore_card_frame[OF j(1)]
  from restore_card_Normal[OF j(1,3)] obtain p1 where n: "restore_card j p = Normal p1" by blast
  then have p1: "page_of (restore_card j p) = p1" by simp
  have ids: "map checklistId (cards p1) = map checklistId (cards p)" using f(2) by (simp add: p1)
  have st: "localStorage p1 = localStorage p" using f(1) by (simp add: p1)
  have len: "length (cards p1) = length (cards p)" by (rule same_ids(1)[OF ids])
  have "items (cards p1 ! ci) = items (cards p ! ci)"
    using restore_card_items[OF j(1) Cons.prems(2)] j(2) by (simp add: p1)
  then have re: "restored p1 ci = restored p ci"
    using same_ids(2)[OF ids Cons.prems(2)] st by (simp add: restored_def)
  have a: "\<forall>k \<in> set pre. k < length (cards p1) \<and> k \<noteq> ci \<and> resolves p1 (cards p1 ! k)"
    using Cons.prems(1) len resolves_ids[OF ids] by simp
  have b: "ci < length (cards p1)" using Cons.prems(2) len by simp
  have c: "\<forall>k \<in> set post. k < length (cards p1) \<and> k \<noteq> ci" using Cons.prems(3) len by simp
  from Cons.IH[OF a b c] show ?case by (simp add: n re)
qed

text \<open>The change handler stores the state of the checkbox, whether or not it raises after.\<close>

lemma toggle_storage:
  assumes "ci < length (cards p)" and "ii < length (items (cards p ! ci))"
  shows "localStorage (page_of (toggle ci ii v p))
           = (localStorage p)
               (storage_key (checklistId (cards p ! ci)) (itemId (items (cards p ! ci) ! ii))
                  \<mapsto> bool_string v)"
  using assms
  by (simp add: toggle_def checklist_item_change_def set_checked_def Let_def
      updateChecklistProgress_frame)

lemma quote_page_cards:
  "cards quote_page = [card_Q, card_A]" "cards quote_reloaded_page = [card_Q, card_A]"
  by (simp_all add: quote_reloaded_page_def quote_page_def)

text \<open>
  C7, as the claim states it, fails: not for every checklist identifier. On the page whose
  first card has the identifier \<^verbatim>\<open>a"b\<close>, the second checkbox of card A is ticked and
  stored under \<^verbatim>\<open>checklist_A_2\<close>; on the page as rendered again the restoration step
  raises a \<^verbatim>\<open>SyntaxError\<close> at the first card, before it reaches card A, whose checkbox
  stays unchecked as rendered.
\<close>

theorem invalid_selector_stops_restoration:
  "checklistId (cards quote_page ! 1) = Some ''A''
   \<and> itemId (items (cards quote_page ! 1) ! 1) = Some ''2''
   \<and> localStorage quote_reloaded_page = localStorage (page_of (toggle 1 1 True quote_page))
   \<and> cards quote_reloaded_page = cards quote_page
   \<and> localStorage quote_reloaded_page ''checklist_A_2'' = Some ''true''
   \<and> (\<exists>p'. restoreChecklists quote_reloaded_page = Throw SyntaxError p')
   \<and> checked (items (cards (page_of (restoreChecklists quote_reloaded_page)) ! 1) ! 1) = False"
proof -
  have sz: "1 < length (cards quote_page)" "1 < length (items (cards quote_page ! 1))"
    by (simp_all add: quote_page_cards card_A_def)
  have ids: "checklistId (cards quote_page ! 1) = Some ''A''"
    "itemId (items (cards quote_page ! 1) ! 1) = Some ''2''"
    by (simp_all add: quote_page_cards card_A_def)
  have st: "localStorage quote_reloaded_page = localStorage (page_of (toggle 1 1 True quote_page))"
    by (simp add: quote_reloaded_page_def)
  have "localStorage quote_reloaded_page
      = (localStorage quote_page)(storage_key (Some ''A'') (Some ''2'') \<mapsto> bool_string True)"
    unfolding st toggle_storage[OF sz] ids ..
  then have key: "localStorage quote_reloaded_page ''checklist_A_2'' = Some ''true''"
    by (simp add: storage_key_def tmpl_def bool_string_def)
  define p1 where "p1 = quote_reloaded_page\<lparr>cards := [card_Q, card_A]\<rparr>"
  have "restore_card 0 quote_reloaded_page = Throw SyntaxError p1"
    by (simp add: restore_card_def Let_def updateChecklistProgress_def quote_page_cards
        card_Q_def tmpl_def escaped_identifier_lookup(3) p1_def)
  then have r: "restoreChecklists quote_reloaded_page = Throw SyntaxError p1"
    by (simp add: restoreChecklists_def quote_page_cards upt_rec)
  have "checked (items (cards p1 ! 1) ! 1) = False" by (simp add: p1_def card_A_def)
  with r ids st key show ?thesis by (simp add: quote_page_cards)
qed

text \<open>
  C7, amended: round trip. For every checklist identifier, item identifier and boolean
  checked state: toggling the checkbox writes the state to local storage under the key
  \<^verbatim>\<open>checklist_<checklistId>_<itemId>\<close>, and re-running the restoration step against
  the same storage restores the same checked state on the checkbox, whatever state the
  page rendered it in, provided that for each card before the card of the checkbox the
  selector built from its identifier finds a card. The step may still raise at the card
  of the checkbox or after it: the checkbox is restored before.
\<close>

theorem restore_after_toggle:
  assumes "ci < length (cards p)" and "ii < length (items (cards p ! ci))"
    and "localStorage q = localStorage (page_of (toggle ci ii v p))"
    and "ci < length (cards q)" and "ii < length (items (cards q ! ci))"
    and "checklistId (cards q ! ci) = checklistId (cards p ! ci)"
    and "itemId (items (cards q ! ci) ! ii) = itemId (items (cards p ! ci) ! ii)"
    and "list_all (resolves q) (take ci (cards q))"
  shows "localStorage q
           (''checklist_'' @ tmpl (checklistId (cards p ! ci)) @ ''_''
              @ tmpl (itemId (items (cards p ! ci) ! ii)))
           = Some (if v then ''true'' else ''false'')
       \<and> checked (items (cards (page_of (restoreChecklists q)) ! ci) ! ii) = v"
proof -
  let ?key = "storage_key (checklistId (cards p ! ci)) (itemId (items (cards p ! ci) ! ii))"
  have st: "localStorage q ?key = Some (bool_string v)"
    using toggle_storage[OF assms(1,2)] assms(3) by simp
  have split: "[0..<length (cards q)] = [0..<ci] @ ci # [Suc ci..<length (cards q)]"
    using assms(4) by (metis upt_conv_Cons upt_add_eq_append le_add_diff_inverse less_imp_le zero_le)
  have pre: "\<forall>j \<in> set [0..<ci]. j < length (cards q) \<and> j \<noteq> ci \<and> resolves q (cards q ! j)"
    using assms(4,8) by (auto simp: list_all_length)
  have post: "\<forall>j \<in> set [Suc ci..<length (cards q)]. j < length (cards q) \<and> j \<noteq> ci" by auto
  have "items (cards (page_of (restoreChecklists q)) ! ci) = restored q ci"
    unfolding restoreChecklists_def split by (rule restore_cards_reaches[OF pre assms(4) post])
  then have "items (cards (page_of (restoreChecklists q)) ! ci) ! ii
      = restore_item (checklistId (cards q ! ci)) (localStorage q) (items (cards q ! ci) ! ii)"
    using assms(5) by (simp add: restored_def)
  then have "checked (items (cards (page_of (restoreChecklists q)) ! ci) ! ii)
      = (bool_string v = ''true'')"
    using st assms(6,7) by (simp add: restore_item_def)
  then have "checked (items (cards (page_of (restoreChecklists q)) ! ci) ! ii) = v"
    by (simp add: bool_string_def)
  with st show ?thesis by (auto simp: storage_key_def bool_string_def)
qed

lemma reloaded_page_cards: "cards reloaded_page = [card_A, card_B, card_C]"
  by (simp add: reloaded_page_def checklist_page_cards)

theorem restore_after_toggle_witness:
  "list_all (resolves reloaded_page) (take 1 (cards reloaded_page))
   \<and> checked (items (cards reloaded_page ! 1) ! 1) = False
   \<and> localStorage reloaded_page ''checklist_B_2'' = Some ''true''
   \<and> checked (items (cards (page_of (restoreChecklists reloaded_page)) ! 1) ! 1) = True"
proof -
  have "querySelector_card (tmpl (Some ''A'')) reloaded_page
      = querySelector_card (tmpl (Some ''A'')) checklist_page"
    by (rule querySelector_card_ids) (simp add: reloaded_page_def)
  then have res: "list_all (resolves reloaded_page) (take 1 (cards reloaded_page))"
    by (simp add: reloaded_page_cards resolves_def card_A_def checklist_page_lookup(1))
  have un: "checked (items (cards reloaded_page ! 1) ! 1) = False"
    by (simp add: reloaded_page_cards card_B_def)
  have st: "localStorage reloaded_page = localStorage (page_of (toggle 1 1 True checklist_page))"
    by (simp add: reloaded_page_def)
  have sz: "1 < length (cards checklist_page)" "1 < length (items (cards checklist_page ! 1))"
    "1 < length (cards reloaded_page)" "1 < length (items (cards reloaded_page ! 1))"
    by (simp_all add: reloaded_page_cards checklist_page_cards card_B_def)
  have same: "checklistId (cards reloaded_page ! 1) = checklistId (cards checklist_page ! 1)"
    "itemId (items (cards reloaded_page ! 1) ! 1) = itemId (items (cards checklist_page ! 1) ! 1)"
    by (simp_all add: reloaded_page_cards checklist_page_cards)
  have key: "''checklist_'' @ tmpl (checklistId (cards checklist_page ! 1)) @ ''_''
      @ tmpl (itemId (items (cards checklist_page ! 1) ! 1)) = ''checklist_B_2''"
    by (simp add: checklist_page_cards card_B_def tmpl_def)
  from restore_after_toggle[OF sz(1,2) st sz(3,4) same res]
  have "localStorage reloaded_page ''checklist_B_2'' = Some ''true''
      \<and> checked (items (cards (page_of (restoreChecklists reloaded_page)) ! 1) ! 1) = True"
    unfolding key by simp
  with res un show ?thesis by blast
qed

end
